theory Spec2Isabelle
  imports Main "HOL-Library.Finite_Map" "HOL-Library.Char_ord" "HOL-Library.List_Lexorder"
    "HOL-Library.Sublist"
begin

section \<open>Strings of bytes and the string functions the parser calls\<close>

text \<open>
  A Go string is a sequence of bytes; \<^typ>\<open>string\<close> is a list of 8-bit characters, and
  \<^const>\<open>length\<close> counts bytes as Go's \<open>len\<close> does. The functions below are those of Go's
  \<open>strings\<close> package that parser.go and template.go call, with the names they have there.
\<close>

definition HasPrefix :: "string \<Rightarrow> string \<Rightarrow> bool" where
  "HasPrefix s pre = (take (length pre) s = pre)"

definition HasSuffix :: "string \<Rightarrow> string \<Rightarrow> bool" where
  "HasSuffix s suf = (length suf \<le> length s \<and> drop (length s - length suf) s = suf)"

definition TrimPrefix :: "string \<Rightarrow> string \<Rightarrow> string" where
  "TrimPrefix s pre = (if HasPrefix s pre then drop (length pre) s else s)"

definition TrimSuffix :: "string \<Rightarrow> string \<Rightarrow> string" where
  "TrimSuffix s suf = (if HasSuffix s suf then take (length s - length suf) s else s)"

text \<open>\<open>Index s sub\<close>: the position of the first occurrence of \<open>sub\<close>, \<open>None\<close> for Go's -1.\<close>

fun Index :: "string \<Rightarrow> string \<Rightarrow> nat option" where
  "Index [] sub = (if sub = [] then Some 0 else None)"
| "Index (c # cs) sub =
     (if HasPrefix (c # cs) sub then Some 0 else map_option Suc (Index cs sub))"

definition Contains :: "string \<Rightarrow> string \<Rightarrow> bool" where
  "Contains s sub = (Index s sub \<noteq> None)"

text \<open>\<open>IndexAny s chars\<close>: the position of the first byte of \<open>s\<close> that is in \<open>chars\<close>.\<close>

fun IndexAny :: "string \<Rightarrow> string \<Rightarrow> nat option" where
  "IndexAny [] chars = None"
| "IndexAny (c # cs) chars =
     (if c \<in> set chars then Some 0 else map_option Suc (IndexAny cs chars))"

text \<open>
  \<open>Split s sep\<close> for a separator of one byte, which is every use in the sources
  (\<open>"\n"\<close>, \<open>","\<close>, \<open>"."\<close>): the result always has at least one element.
\<close>

fun Split :: "string \<Rightarrow> char \<Rightarrow> string list" where
  "Split [] sep = [[]]"
| "Split (c # cs) sep =
     (if c = sep then [] # Split cs sep
      else (case Split cs sep of [] \<Rightarrow> [[c]] | l # ls \<Rightarrow> (c # l) # ls))"

fun Join :: "string list \<Rightarrow> string \<Rightarrow> string" where
  "Join [] sep = []"
| "Join [l] sep = l"
| "Join (l # ls) sep = l @ sep @ Join ls sep"

text \<open>
  \<open>strings.TrimSpace\<close> removes leading and trailing white space as Unicode defines it:
  the six ASCII characters and the UTF-8 encodings of U+0085, U+00A0, U+1680,
  U+2000 to U+200A, U+2028, U+2029, U+202F, U+205F and U+3000. A byte that does not start
  one of these encodings stops the trimming.
\<close>

definition spaceRunes :: "string list" where
  "spaceRunes =
    [[CHR 0x09], [CHR 0x0A], [CHR 0x0B], [CHR 0x0C], [CHR 0x0D], [CHR 0x20],
     [CHR 0xC2, CHR 0x85], [CHR 0xC2, CHR 0xA0], [CHR 0xE1, CHR 0x9A, CHR 0x80],
     [CHR 0xE2, CHR 0x80, CHR 0x80], [CHR 0xE2, CHR 0x80, CHR 0x81],
     [CHR 0xE2, CHR 0x80, CHR 0x82], [CHR 0xE2, CHR 0x80, CHR 0x83],
     [CHR 0xE2, CHR 0x80, CHR 0x84], [CHR 0xE2, CHR 0x80, CHR 0x85],
     [CHR 0xE2, CHR 0x80, CHR 0x86], [CHR 0xE2, CHR 0x80, CHR 0x87],
     [CHR 0xE2, CHR 0x80, CHR 0x88], [CHR 0xE2, CHR 0x80, CHR 0x89],
     [CHR 0xE2, CHR 0x80, CHR 0x8A], [CHR 0xE2, CHR 0x80, CHR 0xA8],
     [CHR 0xE2, CHR 0x80, CHR 0xA9], [CHR 0xE2, CHR 0x80, CHR 0xAF],
     [CHR 0xE2, CHR 0x81, CHR 0x9F], [CHR 0xE3, CHR 0x80, CHR 0x80]]"

function stripLeading :: "string list \<Rightarrow> string \<Rightarrow> string" where
  "stripLeading us s =
     (case find (\<lambda>u. u \<noteq> [] \<and> HasPrefix s u) us of
        None \<Rightarrow> s
      | Some u \<Rightarrow> stripLeading us (drop (length u) s))"
  by pat_completeness auto
termination
proof (relation "measure (\<lambda>(us, s). length s)")
  show "wf (measure (\<lambda>(us, s). length s))" by simp
next
  fix us :: "string list" and s u :: string
  assume "find (\<lambda>u. u \<noteq> [] \<and> HasPrefix s u) us = Some u"
  then have "u \<noteq> []" and "HasPrefix s u"
    by (auto simp: find_Some_iff)
  then have "s \<noteq> []"
    by (auto simp: HasPrefix_def)
  with \<open>u \<noteq> []\<close> show "((us, drop (length u) s), (us, s)) \<in> measure (\<lambda>(us, s). length s)"
    by simp
qed

declare stripLeading.simps [simp del]

definition TrimSpace :: "string \<Rightarrow> string" where
  "TrimSpace s = rev (stripLeading (map rev spaceRunes) (rev (stripLeading spaceRunes s)))"

text \<open>
  \<open>strconv.Atoi\<close>: an optional sign, then one or more decimal digits, the value within
  the range of a 64-bit \<open>int\<close>; anything else is an error (\<open>None\<close>).
\<close>

definition isDigit :: "char \<Rightarrow> bool" where
  "isDigit c = (48 \<le> (of_char c :: nat) \<and> (of_char c :: nat) \<le> 57)"

definition decimal :: "string \<Rightarrow> int" where
  "decimal ds = foldl (\<lambda>v c. 10 * v + (int (of_char c) - 48)) 0 ds"

definition Atoi :: "string \<Rightarrow> int option" where
  "Atoi s =
     (let neg = HasPrefix s ''-'';
          ds = (if HasPrefix s ''-'' \<or> HasPrefix s ''+'' then drop 1 s else s);
          v = (if neg then - decimal ds else decimal ds)
      in if ds = [] \<or> \<not> list_all isDigit ds then None
         else if - (2 ^ 63) \<le> v \<and> v \<le> 2 ^ 63 - 1 then Some v
         else None)"

section \<open>The data model (types.go)\<close>

text \<open>
  \<open>Value\<close> is Go's \<open>any\<close>. The dynamic types a value built by the parser can have are
  \<open>string\<close>, \<open>Block\<close> (a map), \<open>List\<close>, \<open>[]any\<close> (what \<open>parseInlineList\<close> and
  \<open>parseBlockOfLists\<close> return: a type assertion to \<open>List\<close> fails on it),
  \<open>map[string]any\<close> (what \<open>parseTable\<close> returns) and \<open>UseDirective\<close>; \<open>VNil\<close> is the
  nil interface of a \<open>Node\<close> whose value was never set.
\<close>

datatype Value =
    VNil
  | VStr string
  | VBlock "(string, Value) fmap"
  | VList "Value list"
  | VSlice "Value list"
  | VMap "(string, Value) fmap"
  | VUse "string list"

record Node =
  Key :: string
  Type :: string
  Value :: Value

record Document =
  Nodes :: "Node list"

text \<open>
  A call returns normally, returns a Go \<open>error\<close>, or panics (a run-time error that no
  function of the package recovers from).
\<close>

datatype error =
    UseRequiresList
  | LintRequiresBlock
  | InvalidUse error
  | InvalidLint error
  | AtLine nat error
  | ReadError string
  | CircularFile string
  | OpenFailed string
  | ParseFailed error
  | LoadBaseFailed string error
  | IncludeFailed string error
  | CircularVars nat

datatype 'a result = Ok 'a | Err error | Panic

section \<open>The scanner (parser.go)\<close>

text \<open>
  The \<open>bufio.Scanner\<close> under \<open>Scanner\<close> hands out the lines of the input one by one, then
  reports the end of the input for ever; \<open>Err()\<close> is the error that stopped the reading, if
  any. A reader is modelled by what the scanner gets from it: the lines it delivers and the
  error it ends with.
\<close>

record Reader =
  delivered :: "string list"
  failure :: "error option"

record Scanner =
  pending :: "string list"
  lineNum :: nat
  readErr :: "error option"

definition NewScanner :: "Reader \<Rightarrow> Scanner" where
  "NewScanner r = \<lparr>pending = delivered r, lineNum = 0, readErr = failure r\<rparr>"

definition NextLine :: "Scanner \<Rightarrow> (nat \<times> string \<times> bool) \<times> Scanner" where
  "NextLine s =
     (case pending s of
        [] \<Rightarrow> ((lineNum s, [], False), s)
      | l # ls \<Rightarrow> ((lineNum s + 1, l, True), s\<lparr>pending := ls, lineNum := lineNum s + 1\<rparr>))"

section \<open>The parser (parser.go)\<close>

text \<open>
  \<open>dedentFunc\<close> returns a string or panics (\<open>None\<close>); the two predicates are pure. Methods
  that never read their receiver (\<open>splitKeyValue\<close>, \<open>parseKeyAndType\<close>,
  \<open>parseInlineBlock\<close>) are functions of their other arguments.
\<close>

record Parser =
  dedentFunc :: "string \<Rightarrow> int \<Rightarrow> string option"
  skipEmptyLine :: "string \<Rightarrow> bool"
  skipComment :: "string \<Rightarrow> bool"

definition nl :: string where
  "nl = [CHR 0x0A]"

definition dq :: string where
  "dq = [CHR 0x22]"

text \<open>The slice expression \<open>line[n:]\<close>: a panic when \<open>n\<close> is negative or beyond the length.\<close>

definition sliceFrom :: "string \<Rightarrow> int \<Rightarrow> string option" where
  "sliceFrom line n =
     (if n < 0 \<or> int (length line) < n then None else Some (drop (nat n) line))"

definition dedentLines :: "string \<Rightarrow> int \<Rightarrow> string option" where
  "dedentLines s n =
     map_option (\<lambda>lines. Join lines nl)
       (those (map (\<lambda>line. if n \<le> int (length line) then sliceFrom line n else Some line)
                 (Split s (CHR 0x0A))))"

definition NewParser :: Parser where
  "NewParser =
     \<lparr>dedentFunc = dedentLines,
      skipEmptyLine = (\<lambda>line. TrimSpace line = []),
      skipComment = (\<lambda>line. HasPrefix (TrimSpace line) ''#'')\<rparr>"

definition stripSurroundingQuotes :: "string \<Rightarrow> string" where
  "stripSurroundingQuotes s =
     (if 2 \<le> length s \<and> HasPrefix s dq \<and> HasSuffix s dq
      then take (length s - 2) (drop 1 s) else s)"

text \<open>
  \<open>keyEndOf line\<close> is the local \<open>keyEnd\<close> of \<open>splitKeyValue\<close>: the position of the first
  blank or tab of the trimmed line, its length when it has none.
\<close>

definition keyEndOf :: "string \<Rightarrow> nat" where
  "keyEndOf line =
     (case IndexAny line [CHR 0x20, CHR 0x09] of None \<Rightarrow> length line | Some i \<Rightarrow> i)"

definition splitKeyValue :: "string \<Rightarrow> string \<times> string \<times> bool" where
  "splitKeyValue line0 =
     (let line = TrimSpace line0;
          keyEnd = keyEndOf line;
          keyPart = take keyEnd line
      in if HasSuffix keyPart '':'' \<and> \<not> Contains keyPart ''://'' then
           (let key = TrimSuffix keyPart '':'';
                val = (if keyEnd < length line then
                         (let v = TrimSpace (drop keyEnd line);
                              v' = (case Index v ''#'' of
                                      Some commentIdx \<Rightarrow> TrimSpace (take commentIdx v)
                                    | None \<Rightarrow> v)
                          in stripSurroundingQuotes v')
                       else [])
            in (key, val, True))
         else if keyEnd < length line then
           (keyPart, stripSurroundingQuotes (TrimSpace (drop keyEnd line)), False)
         else (keyPart, [], False))"

definition parseKeyAndType :: "string \<Rightarrow> string \<times> string" where
  "parseKeyAndType keyPart =
     (case Index keyPart ''!'' of
        Some idx \<Rightarrow> (take idx keyPart, drop (idx + 1) keyPart)
      | None \<Rightarrow> (keyPart, []))"

definition parseInlineList :: "string \<Rightarrow> Value list result" where
  "parseInlineList line0 =
     (let line = TrimSuffix (TrimPrefix (TrimSpace line0) ''['') '']''
      in if line = [] then Ok []
         else Ok (map (\<lambda>item. VStr (TrimSpace item)) (Split line (CHR '',''))))"

definition parseInlineBlock :: "string \<Rightarrow> (string, Value) fmap result" where
  "parseInlineBlock s0 =
     (let s = TrimSpace (TrimSuffix (TrimPrefix (TrimSpace s0) ''{'') ''}'')
      in if s = [] then Ok fmempty
         else Ok (foldl (\<lambda>block part0.
                     (let part = TrimSpace part0
                      in if part = [] then block
                         else (case splitKeyValue part of (keyPart, valPart, _) \<Rightarrow>
                                 (case parseKeyAndType keyPart of (key, _) \<Rightarrow>
                                    fmupd key (VStr valPart) block))))
                   fmempty (Split s (CHR '',''))))"

lemma NextLine_shorter:
  "NextLine s = ((n, l, True), s') \<Longrightarrow> length (pending s') < length (pending s)"
  by (auto simp: NextLine_def split: list.splits)

function parseMultiline_loop :: "Scanner \<Rightarrow> string list \<Rightarrow> string list \<times> Scanner" where
  "parseMultiline_loop s content =
     (case NextLine s of ((n, line, ok), s') \<Rightarrow>
        if \<not> ok then (content, s')
        else if TrimSpace line = ''```'' then (content, s')
        else parseMultiline_loop s' (content @ [line]))"
  by pat_completeness auto
termination
  by (relation "measure (\<lambda>(s, content). length (pending s))")
     (auto dest: NextLine_shorter [OF sym])

definition parseMultiline :: "Parser \<Rightarrow> Scanner \<Rightarrow> Node \<Rightarrow> string \<Rightarrow> (Value \<times> Scanner) result" where
  "parseMultiline p s node line =
     (case parseMultiline_loop s [] of (content, s') \<Rightarrow>
        (let text = Join content nl
         in if Type node \<noteq> [] then
              (case Atoi (Type node) of
                 Some dedent \<Rightarrow>
                   (case dedentFunc p text dedent of
                      Some text' \<Rightarrow> Ok (VStr text', s')
                    | None \<Rightarrow> Panic)
               | None \<Rightarrow> Ok (VStr text, s'))
            else Ok (VStr text, s')))"

function parseBlockOfLists_loop ::
  "Parser \<Rightarrow> Scanner \<Rightarrow> Value list \<Rightarrow> (Value list \<times> Scanner) result" where
  "parseBlockOfLists_loop p s rows =
     (case NextLine s of ((n, line0, ok), s') \<Rightarrow>
        if \<not> ok then Ok (rows, s')
        else (let line = TrimSpace line0
              in if line = ''}'' then Ok (rows, s')
                 else if skipEmptyLine p line \<or> skipComment p line
                   then parseBlockOfLists_loop p s' rows
                 else if HasPrefix line ''['' then
                   (case parseInlineList line of
                      Ok list \<Rightarrow> parseBlockOfLists_loop p s' (rows @ [VSlice list])
                    | Err e \<Rightarrow> Err e
                    | Panic \<Rightarrow> Panic)
                 else parseBlockOfLists_loop p s' rows))"
  by pat_completeness auto
termination
  by (relation "measure (\<lambda>(p, s, rows). length (pending s))")
     (auto dest: NextLine_shorter [OF sym])

definition parseBlockOfLists :: "Parser \<Rightarrow> Scanner \<Rightarrow> (Value list \<times> Scanner) result" where
  "parseBlockOfLists p s = parseBlockOfLists_loop p s []"

lemma NextLine_le:
  "NextLine s = (x, s') \<Longrightarrow> length (pending s') \<le> length (pending s)"
  by (auto simp: NextLine_def split: list.splits)

declare parseMultiline_loop.simps [simp del] parseBlockOfLists_loop.simps [simp del]

lemma parseBlockOfLists_loop_le:
  "parseBlockOfLists_loop p s rows = Ok (r, s') \<Longrightarrow> length (pending s') \<le> length (pending s)"
proof (induction p s rows rule: parseBlockOfLists_loop.induct)
  case (1 p s rows)
  obtain n line0 ok s1 where nx: "NextLine s = ((n, line0, ok), s1)"
    by (metis prod_cases3 surj_pair)
  have s1: "length (pending s1) \<le> length (pending s)"
    using nx by (rule NextLine_le)
  note IH = "1.IH" [OF nx [symmetric] refl refl]
  show ?case
  proof (cases ok)
    case False
    with nx "1.prems" s1 show ?thesis
      by (simp add: parseBlockOfLists_loop.simps [of p s])
  next
    case True
    with "1.prems" nx IH s1 show ?thesis
      by (simp add: parseBlockOfLists_loop.simps [of p s] Let_def
               split: if_splits result.splits)
         (use le_trans in blast)+
  qed
qed

function parseTable_loop ::
  "Parser \<Rightarrow> Scanner \<Rightarrow> (string, Value) fmap \<Rightarrow> ((string, Value) fmap \<times> Scanner) result" where
  "parseTable_loop p s table =
     (case NextLine s of ((n, line0, ok), s') \<Rightarrow>
        if \<not> ok then Ok (table, s')
        else (let line = TrimSpace line0
              in if line = ''}'' then Ok (table, s')
                 else if skipEmptyLine p line \<or> skipComment p line
                   then parseTable_loop p s' table
                 else if HasPrefix line ''columns'' then
                   (case parseInlineList (drop (length ''columns'') line) of
                      Ok colList \<Rightarrow>
                        parseTable_loop p s' (fmupd ''columns'' (VSlice colList) table)
                    | Err e \<Rightarrow> Err e
                    | Panic \<Rightarrow> Panic)
                 else if HasPrefix line ''rows'' then
                   (case parseBlockOfLists p s' of
                      Ok (rowsBlock, s'') \<Rightarrow>
                        parseTable_loop p s'' (fmupd ''rows'' (VSlice rowsBlock) table)
                    | Err e \<Rightarrow> Err e
                    | Panic \<Rightarrow> Panic)
                 else parseTable_loop p s' table))"
  by pat_completeness auto
termination
  by (relation "measure (\<lambda>(p, s, table). length (pending s))")
     (auto dest!: NextLine_shorter [OF sym] parseBlockOfLists_loop_le
           simp: parseBlockOfLists_def)

declare parseTable_loop.simps [simp del]

definition parseTable :: "Parser \<Rightarrow> Scanner \<Rightarrow> (Value \<times> Scanner) result" where
  "parseTable p s =
     (case parseTable_loop p s fmempty of
        Ok (table, s') \<Rightarrow> Ok (VMap table, s')
      | Err e \<Rightarrow> Err e
      | Panic \<Rightarrow> Panic)"

text \<open>
  The scanner only moves forward. The loops of \<open>parseBlock\<close> and \<open>parseList\<close> go on
  with the scanner that the parse of a nested line has left behind; the test
  \<open>length (pending s'') \<le> length (pending s')\<close> on that scanner is what shows the recursion
  to be well-founded. Lemma \<open>parse_advances\<close> below proves that the test never fails, and
  \<open>parseBlock_loop_eq\<close>, \<open>parseList_loop_eq\<close> are the loops without it, as the source has
  them.
\<close>

function parseLine :: "Parser \<Rightarrow> Scanner \<Rightarrow> string \<Rightarrow> (Node \<times> Scanner) result"
  and parseValue :: "Parser \<Rightarrow> Scanner \<Rightarrow> Node \<Rightarrow> string \<Rightarrow> bool \<Rightarrow> (Value \<times> Scanner) result"
  and parseBlock :: "Parser \<Rightarrow> Scanner \<Rightarrow> ((string, Value) fmap \<times> Scanner) result"
  and parseBlock_loop ::
    "Parser \<Rightarrow> Scanner \<Rightarrow> (string, Value) fmap \<Rightarrow> ((string, Value) fmap \<times> Scanner) result"
  and parseList :: "Parser \<Rightarrow> Scanner \<Rightarrow> (Value list \<times> Scanner) result"
  and parseList_loop :: "Parser \<Rightarrow> Scanner \<Rightarrow> Value list \<Rightarrow> (Value list \<times> Scanner) result"
  and parseListItem :: "Parser \<Rightarrow> Scanner \<Rightarrow> string \<Rightarrow> (Value \<times> Scanner) result"
where
  "parseLine p s line =
     (case splitKeyValue line of (keyPart, valPart, lineOriented) \<Rightarrow>
        (case parseKeyAndType keyPart of (key, typeAnnotation) \<Rightarrow>
           (let node = \<lparr>Key = key, Type = typeAnnotation, Value = VNil\<rparr>
            in if typeAnnotation = ''quoted'' then
                 (let valPart' = (if \<not> HasPrefix valPart dq \<or> \<not> HasSuffix valPart dq
                                  then dq @ valPart @ dq else valPart)
                  in Ok (node\<lparr>Type := ''string'', Value := VStr valPart'\<rparr>, s))
               else
                 (case parseValue p s node valPart lineOriented of
                    Ok (v, s') \<Rightarrow> Ok (node\<lparr>Value := v\<rparr>, s')
                  | Err e \<Rightarrow> Err e
                  | Panic \<Rightarrow> Panic))))"
| "parseValue p s node valPart lineOriented =
     (if HasPrefix valPart ''```'' then parseMultiline p s node valPart
      else if valPart = ''{'' then
        (case parseBlock p s of
           Ok (block, s') \<Rightarrow> Ok (VBlock block, s') | Err e \<Rightarrow> Err e | Panic \<Rightarrow> Panic)
      else if valPart = ''['' then
        (case parseList p s of
           Ok (list, s') \<Rightarrow> Ok (VList list, s') | Err e \<Rightarrow> Err e | Panic \<Rightarrow> Panic)
      else if HasPrefix valPart ''['' \<and> HasSuffix valPart '']'' then
        (case parseInlineList valPart of
           Ok list \<Rightarrow> Ok (VSlice list, s) | Err e \<Rightarrow> Err e | Panic \<Rightarrow> Panic)
      else if HasPrefix valPart ''{'' \<and> Contains valPart ''}'' then
        (case parseInlineBlock valPart of
           Ok block \<Rightarrow> Ok (VBlock block, s) | Err e \<Rightarrow> Err e | Panic \<Rightarrow> Panic)
      else if Type node = ''table'' \<and> HasPrefix valPart ''{'' then parseTable p s
      else Ok (VStr valPart, s))"
| "parseBlock p s = parseBlock_loop p s fmempty"
| "parseBlock_loop p s block =
     (case NextLine s of ((n, line0, ok), s') \<Rightarrow>
        if \<not> ok then Ok (block, s')
        else (let line = TrimSpace line0
              in if line = ''}'' then Ok (block, s')
                 else if skipEmptyLine p line \<or> skipComment p line
                   then parseBlock_loop p s' block
                 else
                   (case parseLine p s' line of
                      Ok (node, s'') \<Rightarrow>
                        if length (pending s'') \<le> length (pending s')
                        then parseBlock_loop p s'' (fmupd (Key node) (Value node) block)
                        else Panic
                    | Err e \<Rightarrow> Err e
                    | Panic \<Rightarrow> Panic)))"
| "parseList p s = parseList_loop p s []"
| "parseList_loop p s list =
     (case NextLine s of ((n, line0, ok), s') \<Rightarrow>
        if \<not> ok then Ok (list, s')
        else (let line = TrimSpace line0
              in if line = '']'' then Ok (list, s')
                 else if skipEmptyLine p line \<or> skipComment p line
                   then parseList_loop p s' list
                 else
                   (case parseListItem p s' line of
                      Ok (item, s'') \<Rightarrow>
                        if length (pending s'') \<le> length (pending s')
                        then parseList_loop p s'' (list @ [item])
                        else Panic
                    | Err e \<Rightarrow> Err e
                    | Panic \<Rightarrow> Panic)))"
| "parseListItem p s line =
     (if HasPrefix line ''{'' then
        (case parseBlock p s of
           Ok (block, s') \<Rightarrow> Ok (VBlock block, s') | Err e \<Rightarrow> Err e | Panic \<Rightarrow> Panic)
      else if HasPrefix line ''['' then
        (case parseInlineList line of
           Ok list \<Rightarrow> Ok (VSlice list, s) | Err e \<Rightarrow> Err e | Panic \<Rightarrow> Panic)
      else Ok (VStr line, s))"
  by pat_completeness auto
termination
  apply (relation "measure (\<lambda>x. case x of
      Inl (Inl (p, s, line)) \<Rightarrow> 5 * length (pending s) + 4
    | Inl (Inr (Inl (p, s, node, valPart, lo))) \<Rightarrow> 5 * length (pending s) + 3
    | Inl (Inr (Inr (p, s))) \<Rightarrow> 5 * length (pending s) + 2
    | Inr (Inl (Inl (p, s, block))) \<Rightarrow> 5 * length (pending s) + 1
    | Inr (Inl (Inr (p, s))) \<Rightarrow> 5 * length (pending s) + 2
    | Inr (Inr (Inl (p, s, list))) \<Rightarrow> 5 * length (pending s) + 1
    | Inr (Inr (Inr (p, s, line))) \<Rightarrow> 5 * length (pending s) + 3)")
  apply (auto dest!: NextLine_shorter [OF sym])
  done

declare parseLine.simps [simp del] parseValue.simps [simp del] parseBlock.simps [simp del]
  parseBlock_loop.simps [simp del] parseList.simps [simp del] parseList_loop.simps [simp del]
  parseListItem.simps [simp del]

definition advanced :: "Scanner \<Rightarrow> Scanner \<Rightarrow> bool" where
  "advanced s s' =
     (\<exists>k\<le>length (pending s). s' = s\<lparr>pending := drop k (pending s), lineNum := lineNum s + k\<rparr>)"

definition advances :: "Scanner \<Rightarrow> ('a \<times> Scanner) result \<Rightarrow> bool" where
  "advances s r = (case r of Ok (x, s') \<Rightarrow> advanced s s' | Err e \<Rightarrow> True | Panic \<Rightarrow> True)"

text \<open>\<open>noErr r\<close>: the call did not return an error.\<close>

definition noErr :: "'a result \<Rightarrow> bool" where
  "noErr r = (case r of Err e \<Rightarrow> False | _ \<Rightarrow> True)"

lemma advanced_refl [simp]: "advanced s s"
  unfolding advanced_def by (rule exI [of _ 0]) simp

lemma advanced_trans: "advanced s s' \<Longrightarrow> advanced s' s'' \<Longrightarrow> advanced s s''"
  unfolding advanced_def
proof (elim exE conjE)
  fix k j
  assume k: "k \<le> length (pending s)" and s': "s' = s\<lparr>pending := drop k (pending s), lineNum := lineNum s + k\<rparr>"
    and j: "j \<le> length (pending s')" and s'': "s'' = s'\<lparr>pending := drop j (pending s'), lineNum := lineNum s' + j\<rparr>"
  show "\<exists>k\<le>length (pending s). s'' = s\<lparr>pending := drop k (pending s), lineNum := lineNum s + k\<rparr>"
    using k j s' s'' by (intro exI [of _ "k + j"]) (simp add: add.commute)
qed

lemma advanced_le: "advanced s s' \<Longrightarrow> length (pending s') \<le> length (pending s)"
  by (auto simp: advanced_def)

lemma NextLine_advanced: "NextLine s = (x, s') \<Longrightarrow> advanced s s'"
  unfolding advanced_def NextLine_def
  by (cases "pending s") (auto intro: exI [of _ 0] exI [of _ 1])

lemma advances_Ok [simp]: "advances s (Ok (x, s')) = advanced s s'"
  and advances_Err [simp]: "advances s (Err e)"
  and advances_Panic [simp]: "advances s Panic"
  by (simp_all add: advances_def)

lemma advances_step:
  "advanced s s1 \<Longrightarrow> advances s1 r \<Longrightarrow> advances s r"
  by (cases r) (auto intro: advanced_trans)

lemma advances_map:
  "advances s r \<Longrightarrow>
   advances s (case r of Ok (x, s') \<Rightarrow> Ok (f x, s') | Err e \<Rightarrow> Err e | Panic \<Rightarrow> Panic)"
  by (cases r) auto

lemma parseMultiline_loop_advanced:
  "parseMultiline_loop s content = (c, s') \<Longrightarrow> advanced s s'"
proof (induction s content rule: parseMultiline_loop.induct)
  case (1 s content)
  obtain n line ok s1 where nx: "NextLine s = ((n, line, ok), s1)"
    by (metis prod_cases3 surj_pair)
  note s1 = NextLine_advanced [OF nx]
  from "1.prems" nx s1 "1.IH" [OF nx [symmetric] refl refl] show ?case
    by (auto simp: parseMultiline_loop.simps [of s] split: if_splits intro: advanced_trans)
qed

lemma parseMultiline_advances: "advances s (parseMultiline p s node line)"
  by (auto simp: parseMultiline_def Let_def split: prod.splits option.splits
           dest: parseMultiline_loop_advanced)


lemma NextLine_cases:
  obtains (eof) n where "NextLine s = ((n, [], False), s)" "pending s = []"
  | (line) l s1 where "NextLine s = ((lineNum s + 1, l, True), s1)"
      "length (pending s1) < length (pending s)" "advanced s s1"
proof (cases "pending s")
  case Nil
  then show ?thesis
    by (intro eof [of "lineNum s"]) (simp_all add: NextLine_def)
next
  case (Cons l ls)
  let ?s1 = "s\<lparr>pending := ls, lineNum := lineNum s + 1\<rparr>"
  have nx: "NextLine s = ((lineNum s + 1, l, True), ?s1)"
    using Cons by (simp add: NextLine_def)
  show ?thesis
  proof (rule line [OF nx])
    show "length (pending ?s1) < length (pending s)"
      using Cons by simp
    show "advanced s ?s1"
      by (rule NextLine_advanced [OF nx])
  qed
qed

lemma parseBlockOfLists_loop_advances: "advances s (parseBlockOfLists_loop p s rows)"
proof (induction "length (pending s)" arbitrary: s rows rule: less_induct)
  case less
  show ?case
  proof (cases s rule: NextLine_cases)
    case (eof n)
    then show ?thesis
      by (simp add: parseBlockOfLists_loop.simps [of p s])
  next
    case (line l s1)
    have IH: "advances s (parseBlockOfLists_loop p s1 r)" for r
      using less [OF line(2)] line(3) by (rule advances_step [rotated])
    show ?thesis
      using line(1,3)
      by (simp add: parseBlockOfLists_loop.simps [of p s] Let_def IH split: result.splits)
  qed
qed

lemma parseTable_loop_advances: "advances s (parseTable_loop p s table)"
proof (induction "length (pending s)" arbitrary: s table rule: less_induct)
  case less
  show ?case
  proof (cases s rule: NextLine_cases)
    case (eof n)
    then show ?thesis
      by (simp add: parseTable_loop.simps [of p s])
  next
    case (line l s1)
    have IH: "advances s (parseTable_loop p s2 t)" if "advanced s1 s2" for s2 t
    proof -
      have "length (pending s2) < length (pending s)"
        using advanced_le [OF that] line(2) by simp
      then have "advances s2 (parseTable_loop p s2 t)"
        by (rule less)
      with advanced_trans [OF line(3) that] show ?thesis
        by (rule advances_step)
    qed
    have rows: "advances s1 (parseBlockOfLists p s1)"
      unfolding parseBlockOfLists_def by (rule parseBlockOfLists_loop_advances)
    show ?thesis
      using line(1,3) rows
      by (auto simp: parseTable_loop.simps [of p s] Let_def IH split: result.splits)
  qed
qed

lemma parseTable_advances: "advances s (parseTable p s)"
  using parseTable_loop_advances [of s p fmempty]
  by (auto simp: parseTable_def split: result.splits)

lemma parse_advances_all:
  "(\<forall>line. advances s (parseLine p s line)) \<and>
   (\<forall>node valPart lo. advances s (parseValue p s node valPart lo)) \<and>
   advances s (parseBlock p s) \<and>
   (\<forall>block. advances s (parseBlock_loop p s block)) \<and>
   advances s (parseList p s) \<and>
   (\<forall>list. advances s (parseList_loop p s list)) \<and>
   (\<forall>line. advances s (parseListItem p s line))"
proof (induction "length (pending s)" arbitrary: s rule: less_induct)
  case less
  have later: "advances s (parseBlock_loop p s2 b) \<and> advances s (parseList_loop p s2 l) \<and>
      advances s (parseLine p s2 line) \<and> advances s (parseListItem p s2 line)"
    if "advanced s s1" "length (pending s1) < length (pending s)" "advanced s1 s2"
    for s1 s2 b l line
  proof -
    have "length (pending s2) < length (pending s)"
      using advanced_le [OF that(3)] that(2) by simp
    from less [OF this] advanced_trans [OF that(1,3)] show ?thesis
      by (blast intro: advances_step)
  qed
  have block_loop: "advances s (parseBlock_loop p s block)" for block
  proof (cases s rule: NextLine_cases)
    case (eof n)
    then show ?thesis
      by (simp add: parseBlock_loop.simps [of p s])
  next
    case (line l s1)
    note L = later [OF line(3,2)]
    have "advances s (case parseLine p s1 ln of
        Ok (node, s'') \<Rightarrow>
          if length (pending s'') \<le> length (pending s1)
          then parseBlock_loop p s'' (fmupd (Key node) (Value node) block) else Panic
      | Err e \<Rightarrow> Err e | Panic \<Rightarrow> Panic)" for ln
    proof (cases "parseLine p s1 ln")
      case (Ok x)
      obtain node s2 where x: "x = (node, s2)" by (cases x)
      have "advances s1 (parseLine p s1 ln)"
        using less [OF line(2)] by blast
      then have "advanced s1 s2"
        using Ok x by simp
      with L [OF this] Ok x show ?thesis
        by simp
    qed simp_all
    with line(1,3) L [OF advanced_refl] show ?thesis
      by (simp add: parseBlock_loop.simps [of p s] Let_def)
  qed
  have list_loop: "advances s (parseList_loop p s list)" for list
  proof (cases s rule: NextLine_cases)
    case (eof n)
    then show ?thesis
      by (simp add: parseList_loop.simps [of p s])
  next
    case (line l s1)
    note L = later [OF line(3,2)]
    have "advances s (case parseListItem p s1 ln of
        Ok (item, s'') \<Rightarrow>
          if length (pending s'') \<le> length (pending s1)
          then parseList_loop p s'' (list @ [item]) else Panic
      | Err e \<Rightarrow> Err e | Panic \<Rightarrow> Panic)" for ln
    proof (cases "parseListItem p s1 ln")
      case (Ok x)
      obtain item s2 where x: "x = (item, s2)" by (cases x)
      have "advances s1 (parseListItem p s1 ln)"
        using less [OF line(2)] by blast
      then have "advanced s1 s2"
        using Ok x by simp
      with L [OF this] Ok x show ?thesis
        by simp
    qed simp_all
    with line(1,3) L [OF advanced_refl] show ?thesis
      by (simp add: parseList_loop.simps [of p s] Let_def)
  qed
  have block: "advances s (parseBlock p s)"
    by (simp add: parseBlock.simps block_loop)
  have list: "advances s (parseList p s)"
    by (simp add: parseList.simps list_loop)
  have "value": "advances s (parseValue p s node valPart lo)" for node valPart lo
    using block list parseMultiline_advances [of s p node valPart] parseTable_advances [of s p]
    by (auto simp: parseValue.simps [of p s] parseInlineList_def parseInlineBlock_def Let_def
             split: result.splits)
  have item: "advances s (parseListItem p s line)" for line
    using block
    by (auto simp: parseListItem.simps [of p s] parseInlineList_def Let_def
             split: result.splits)
  have line: "advances s (parseLine p s line)" for line
  proof -
    obtain keyPart valPart lo where sp: "splitKeyValue line = (keyPart, valPart, lo)"
      by (metis prod_cases3)
    obtain key ty where kt: "parseKeyAndType keyPart = (key, ty)"
      by (cases "parseKeyAndType keyPart")
    show ?thesis
      using "value" [of "\<lparr>Key = key, Type = ty, Value = VNil\<rparr>" valPart lo]
      by (cases "parseValue p s \<lparr>Key = key, Type = ty, Value = VNil\<rparr> valPart lo")
         (auto simp: parseLine.simps [of p s] sp kt Let_def)
  qed
  from line "value" block block_loop list list_loop item show ?case
    by blast
qed

lemma parseLine_advances: "advances s (parseLine p s line)"
  and parseListItem_advances: "advances s (parseListItem p s line)"
  and parseBlock_advances: "advances s (parseBlock p s)"
  and parseList_advances: "advances s (parseList p s)"
  and parseValue_advances: "advances s (parseValue p s node valPart lo)"
  using parse_advances_all [of s p] by blast+

lemma parseBlock_loop_eq:
  "parseBlock_loop p s block =
     (case NextLine s of ((n, line0, ok), s') \<Rightarrow>
        if \<not> ok then Ok (block, s')
        else (let line = TrimSpace line0
              in if line = ''}'' then Ok (block, s')
                 else if skipEmptyLine p line \<or> skipComment p line
                   then parseBlock_loop p s' block
                 else
                   (case parseLine p s' line of
                      Ok (node, s'') \<Rightarrow>
                        parseBlock_loop p s'' (fmupd (Key node) (Value node) block)
                    | Err e \<Rightarrow> Err e
                    | Panic \<Rightarrow> Panic)))"
proof -
  have "(case parseLine p s1 ln of
           Ok (node, s'') \<Rightarrow>
             if length (pending s'') \<le> length (pending s1)
             then parseBlock_loop p s'' (fmupd (Key node) (Value node) block) else Panic
         | Err e \<Rightarrow> Err e | Panic \<Rightarrow> Panic) =
        (case parseLine p s1 ln of
           Ok (node, s'') \<Rightarrow> parseBlock_loop p s'' (fmupd (Key node) (Value node) block)
         | Err e \<Rightarrow> Err e | Panic \<Rightarrow> Panic)" for s1 ln
    using parseLine_advances [of s1 p ln]
    by (auto split: result.splits dest: advanced_le)
  then show ?thesis
    by (cases s rule: NextLine_cases) (simp_all add: parseBlock_loop.simps [of p s] Let_def)
qed

lemma parseList_loop_eq:
  "parseList_loop p s list =
     (case NextLine s of ((n, line0, ok), s') \<Rightarrow>
        if \<not> ok then Ok (list, s')
        else (let line = TrimSpace line0
              in if line = '']'' then Ok (list, s')
                 else if skipEmptyLine p line \<or> skipComment p line
                   then parseList_loop p s' list
                 else
                   (case parseListItem p s' line of
                      Ok (item, s'') \<Rightarrow> parseList_loop p s'' (list @ [item])
                    | Err e \<Rightarrow> Err e
                    | Panic \<Rightarrow> Panic)))"
proof -
  have "(case parseListItem p s1 ln of
           Ok (item, s'') \<Rightarrow>
             if length (pending s'') \<le> length (pending s1)
             then parseList_loop p s'' (list @ [item]) else Panic
         | Err e \<Rightarrow> Err e | Panic \<Rightarrow> Panic) =
        (case parseListItem p s1 ln of
           Ok (item, s'') \<Rightarrow> parseList_loop p s'' (list @ [item])
         | Err e \<Rightarrow> Err e | Panic \<Rightarrow> Panic)" for s1 ln
    using parseListItem_advances [of s1 p ln]
    by (auto split: result.splits dest: advanced_le)
  then show ?thesis
    by (cases s rule: NextLine_cases) (simp_all add: parseList_loop.simps [of p s] Let_def)
qed

definition parseUseDirective :: "Parser \<Rightarrow> Scanner \<Rightarrow> string \<Rightarrow> (Node \<times> Scanner) result" where
  "parseUseDirective p s line0 =
     (let line = TrimSpace (TrimPrefix (TrimSpace line0) ''!use'')
      in if HasPrefix line ''['' then
           (case parseInlineList line of
              Ok namespaces \<Rightarrow>
                Ok (\<lparr>Key = ''_use'', Type = ''directive'',
                     Value = VUse (map (\<lambda>ns. case ns of VStr str \<Rightarrow> str | _ \<Rightarrow> []) namespaces)\<rparr>,
                    s)
            | Err e \<Rightarrow> Err (InvalidUse e)
            | Panic \<Rightarrow> Panic)
         else Err UseRequiresList)"

definition parseLintDirective :: "Parser \<Rightarrow> Scanner \<Rightarrow> string \<Rightarrow> (Node \<times> Scanner) result" where
  "parseLintDirective p s line0 =
     (let line = TrimSpace (TrimPrefix (TrimSpace line0) ''!lint'')
      in if line = ''{'' then
           (case parseBlock p s of
              Ok (block, s') \<Rightarrow>
                Ok (\<lparr>Key = ''_lint'', Type = ''directive'', Value = VBlock block\<rparr>, s')
            | Err e \<Rightarrow> Err (InvalidLint e)
            | Panic \<Rightarrow> Panic)
         else Err LintRequiresBlock)"

lemma parseUseDirective_advances: "advances s (parseUseDirective p s line)"
  by (auto simp: parseUseDirective_def parseInlineList_def Let_def)

lemma parseLintDirective_advances: "advances s (parseLintDirective p s line)"
  using parseBlock_advances [of s p]
  by (auto simp: parseLintDirective_def Let_def split: result.splits)

lemma parseLine_le:
  "parseLine p s line = Ok (x, s') \<Longrightarrow> length (pending s') \<le> length (pending s)"
  using parseLine_advances [of s p line] by (auto dest: advanced_le)

lemma parseUseDirective_le:
  "parseUseDirective p s line = Ok (x, s') \<Longrightarrow> length (pending s') \<le> length (pending s)"
  using parseUseDirective_advances [of s p line] by (auto dest: advanced_le)

lemma parseLintDirective_le:
  "parseLintDirective p s line = Ok (x, s') \<Longrightarrow> length (pending s') \<le> length (pending s)"
  using parseLintDirective_advances [of s p line] by (auto dest: advanced_le)

function parseNodes_loop :: "Parser \<Rightarrow> Scanner \<Rightarrow> Node list \<Rightarrow> (Node list \<times> Scanner) result" where
  "parseNodes_loop p s nodes =
     (case NextLine s of ((lineNo, line, ok), s') \<Rightarrow>
        if \<not> ok then Ok (nodes, s')
        else if skipEmptyLine p line \<or> skipComment p line then parseNodes_loop p s' nodes
        else (let trimmedLine = TrimSpace line
              in if HasPrefix trimmedLine ''!use'' then
                   (case parseUseDirective p s' trimmedLine of
                      Ok (useNode, s'') \<Rightarrow> parseNodes_loop p s'' (nodes @ [useNode])
                    | Err e \<Rightarrow> Err (AtLine lineNo e)
                    | Panic \<Rightarrow> Panic)
                 else if HasPrefix trimmedLine ''!lint'' then
                   (case parseLintDirective p s' trimmedLine of
                      Ok (lintNode, s'') \<Rightarrow> parseNodes_loop p s'' (nodes @ [lintNode])
                    | Err e \<Rightarrow> Err (AtLine lineNo e)
                    | Panic \<Rightarrow> Panic)
                 else
                   (case parseLine p s' line of
                      Ok (node, s'') \<Rightarrow> parseNodes_loop p s'' (nodes @ [node])
                    | Err e \<Rightarrow> Err (AtLine lineNo e)
                    | Panic \<Rightarrow> Panic)))"
  by pat_completeness auto
termination
  by (relation "measure (\<lambda>(p, s, nodes). length (pending s))")
     (auto dest!: NextLine_shorter [OF sym] parseLine_le parseUseDirective_le
             parseLintDirective_le)

declare parseNodes_loop.simps [simp del]

definition parseNodes :: "Parser \<Rightarrow> Scanner \<Rightarrow> (Node list \<times> Scanner) result" where
  "parseNodes p s = parseNodes_loop p s []"

text \<open>
  \<open>ParseDocument\<close> returns \<open>(nil, err)\<close> when \<open>parseNodes\<close> fails (\<open>Err\<close>), and the
  document together with \<open>scanner.Err()\<close> otherwise.
\<close>

definition ParseDocument :: "Parser \<Rightarrow> Reader \<Rightarrow> (Document \<times> error option) result" where
  "ParseDocument p r =
     (case parseNodes p (NewScanner r) of
        Ok (nodes, s) \<Rightarrow> Ok (\<lparr>Nodes = nodes\<rparr>, readErr s)
      | Err e \<Rightarrow> Err e
      | Panic \<Rightarrow> Panic)"

definition fromLines :: "string list \<Rightarrow> Reader" where
  "fromLines ls = \<lparr>delivered = ls, failure = None\<rparr>"

section \<open>The template engine (template.go)\<close>

text \<open>
  The engine works on the values the parser builds. Where the Go code walks over a map the
  model walks over its keys in ascending order: Go leaves the order open, and it shows only
  when two entries of a \<open>vars\<close> block flatten to the same path or two patches write the same
  place. Values are copied, not shared, in this part of the model; the part of the engine
  that writes into shared blocks and lists is modelled over an explicit store further down.
\<close>

record TemplateOptions =
  MergeStrategy :: string
  ListStrategy :: string
  BaseDir :: string

record TemplateEngine =
  options :: TemplateOptions
  vars :: "(string, Value) fmap"
  visited :: "string set"

definition NewTemplateEngine :: TemplateEngine where
  "NewTemplateEngine =
     \<lparr>options = \<lparr>MergeStrategy = ''deep'', ListStrategy = ''append'', BaseDir = ''.''\<rparr>,
      vars = fmempty, visited = {}\<rparr>"

text \<open>\<open>keysOf m\<close>: the keys of a Go map, in the order the model visits them.\<close>

definition keysOf :: "(string, 'a) fmap \<Rightarrow> string list" where
  "keysOf m = sorted_list_of_fset (fmdom m)"

lemma fmlookup_size: "fmlookup m k = Some v \<Longrightarrow> size v < size (VBlock m)"
proof -
  assume a: "fmlookup m k = Some v"
  then have mem: "(k, v) \<in> fset (fset_of_fmap m)"
    by (simp add: fset_of_fmap_iff)
  have "(\<Sum>x\<in>fset (fset_of_fmap m). Suc (case x of (a, b) \<Rightarrow> size b)) \<ge>
        Suc (case (k, v) of (a, b) \<Rightarrow> size b)"
    using mem by (intro member_le_sum) simp_all
  then show ?thesis
    by (simp add: size_fset_simps)
qed

text \<open>
  \<open>fmt.Sprint\<close> of one value: a string as it is, a slice as \<open>[a b]\<close>, a map as
  \<open>map[k:v]\<close> with its keys sorted, the \<open>UseDirective\<close> struct as \<open>{[a b]}\<close>, nil as
  \<open><nil>\<close>.
\<close>

function Sprint :: "Value \<Rightarrow> string" where
  "Sprint VNil = ''<nil>''"
| "Sprint (VStr s) = s"
| "Sprint (VBlock m) =
     ''map['' @ Join (map (\<lambda>k. case fmlookup m k of
                                   Some v \<Rightarrow> k @ '':'' @ Sprint v | None \<Rightarrow> [])
                        (keysOf m)) '' '' @ '']''"
| "Sprint (VList l) = ''['' @ Join (map Sprint l) '' '' @ '']''"
| "Sprint (VSlice l) = ''['' @ Join (map Sprint l) '' '' @ '']''"
| "Sprint (VMap m) =
     ''map['' @ Join (map (\<lambda>k. case fmlookup m k of
                                   Some v \<Rightarrow> k @ '':'' @ Sprint v | None \<Rightarrow> [])
                        (keysOf m)) '' '' @ '']''"
| "Sprint (VUse ns) = ''{['' @ Join ns '' '' @ '']}''"
  by pat_completeness auto
termination
  by (relation "measure size")
     (auto dest: fmlookup_size simp: less_Suc_eq_le size_list_estimation')

text \<open>\<open>strings.Replace(s, old, new, 1)\<close> and \<open>strings.ReplaceAll\<close>, for a non-empty \<open>old\<close>.\<close>

definition Replace1 :: "string \<Rightarrow> string \<Rightarrow> string \<Rightarrow> string" where
  "Replace1 s old new =
     (case Index s old of
        None \<Rightarrow> s
      | Some i \<Rightarrow> take i s @ new @ drop (i + length old) s)"

fun ReplaceAll :: "string \<Rightarrow> string \<Rightarrow> string \<Rightarrow> string" where
  "ReplaceAll [] old new = []"
| "ReplaceAll (c # cs) old new =
     (if old \<noteq> [] \<and> HasPrefix (c # cs) old
      then new @ ReplaceAll (drop (length old) (c # cs)) old new
      else c # ReplaceAll cs old new)"

definition isVarChar :: "char \<Rightarrow> bool" where
  "isVarChar c =
     ((CHR ''a'' \<le> c \<and> c \<le> CHR ''z'') \<or> (CHR ''A'' \<le> c \<and> c \<le> CHR ''Z'') \<or>
      (CHR ''0'' \<le> c \<and> c \<le> CHR ''9'') \<or> c = CHR ''_'')"

text \<open>
  \<open>valuesEqual\<close> compares strings, blocks and lists; on any other left operand
  (nil, \<open>[]any\<close>, \<open>map[string]any\<close>, \<open>UseDirective\<close>) it is false. A key that the right
  block lacks reads as nil there.
\<close>

function valuesEqual :: "Value \<Rightarrow> Value \<Rightarrow> bool" where
  "valuesEqual (VStr va) b = (case b of VStr vb \<Rightarrow> va = vb | _ \<Rightarrow> False)"
| "valuesEqual (VBlock va) b =
     (case b of
        VBlock vb \<Rightarrow>
          length (keysOf va) = length (keysOf vb) \<and>
          list_all (\<lambda>k. case fmlookup va k of
                          Some v \<Rightarrow> valuesEqual v (case fmlookup vb k of Some w \<Rightarrow> w | None \<Rightarrow> VNil)
                        | None \<Rightarrow> True)
                   (keysOf va)
      | _ \<Rightarrow> False)"
| "valuesEqual (VList va) b =
     (case b of
        VList vb \<Rightarrow> length va = length vb \<and> list_all (\<lambda>(v, w). valuesEqual v w) (zip va vb)
      | _ \<Rightarrow> False)"
| "valuesEqual VNil b = False"
| "valuesEqual (VSlice va) b = False"
| "valuesEqual (VMap va) b = False"
| "valuesEqual (VUse va) b = False"
  by pat_completeness auto
termination
  by (relation "measure (\<lambda>(a, b). size a)")
     (auto dest: fmlookup_size set_zip_leftD simp: less_Suc_eq_le size_list_estimation')

fun uniqueList_loop :: "Value list \<Rightarrow> string set \<Rightarrow> Value list \<Rightarrow> Value list" where
  "uniqueList_loop [] seen result = result"
| "uniqueList_loop (item # rest) seen result =
     (case item of
        VStr str \<Rightarrow>
          if str \<notin> seen then uniqueList_loop rest (insert str seen) (result @ [item])
          else uniqueList_loop rest seen result
      | _ \<Rightarrow> uniqueList_loop rest seen (result @ [item]))"

definition uniqueList :: "Value list \<Rightarrow> Value list" where
  "uniqueList list = uniqueList_loop list {} []"

function mergeValues :: "TemplateOptions \<Rightarrow> Value \<Rightarrow> Value \<Rightarrow> Value" where
  "mergeValues opts base overlay =
     (if overlay = VNil then base
      else if MergeStrategy opts = ''shallow'' \<or> MergeStrategy opts = ''replace'' then overlay
      else
        (case (base, overlay) of
           (VBlock baseBlock, VBlock overlayBlock) \<Rightarrow>
             if MergeStrategy opts = ''deep'' then
               VBlock (fmadd baseBlock
                 (fmmap_keys (\<lambda>k v. case fmlookup baseBlock k of
                                        Some existing \<Rightarrow> mergeValues opts existing v
                                      | None \<Rightarrow> v)
                    overlayBlock))
             else overlay
         | (VList baseList, VList overlayList) \<Rightarrow>
             if ListStrategy opts = ''append'' then VList (baseList @ overlayList)
             else if ListStrategy opts = ''unique'' then VList (uniqueList (baseList @ overlayList))
             else VList overlayList
         | _ \<Rightarrow> overlay))"
  by pat_completeness auto
termination
  by (relation "measure (\<lambda>(opts, base, overlay). size base)") (auto dest: fmlookup_size)

declare mergeValues.simps [simp del]

definition baseMapOf :: "Node list \<Rightarrow> (string, Node) fmap" where
  "baseMapOf nodes = foldl (\<lambda>m node. fmupd (Key node) node m) fmempty nodes"

fun mergeDocuments_loop ::
  "TemplateOptions \<Rightarrow> Node list \<Rightarrow> (string, Node) fmap \<Rightarrow> Node list \<Rightarrow>
   Node list \<times> (string, Node) fmap" where
  "mergeDocuments_loop opts [] baseMap result = (result, baseMap)"
| "mergeDocuments_loop opts (overlayNode # rest) baseMap result =
     (case fmlookup baseMap (Key overlayNode) of
        Some baseNode \<Rightarrow>
          mergeDocuments_loop opts rest (fmdrop (Key overlayNode) baseMap)
            (result @ [\<lparr>Key = Key overlayNode, Type = Type overlayNode,
                         Value = mergeValues opts (Value baseNode) (Value overlayNode)\<rparr>])
      | None \<Rightarrow> mergeDocuments_loop opts rest baseMap (result @ [overlayNode]))"

definition mergeDocuments :: "TemplateOptions \<Rightarrow> Document \<Rightarrow> Document \<Rightarrow> Document" where
  "mergeDocuments opts base overlay =
     (case mergeDocuments_loop opts (Nodes overlay) (baseMapOf (Nodes base)) [] of
        (result, baseMap) \<Rightarrow>
          \<lparr>Nodes = result @ filter (\<lambda>node. Key node |\<in>| fmdom baseMap) (Nodes base)\<rparr>)"

text \<open>
  \<open>resolveValue\<close> calls itself on the value of a variable that is the whole string, and
  its loop over a string goes on for as long as the string changes: neither has a bound in
  the source. The model counts the calls and the rounds of the loop down from \<open>fuel\<close>; the
  result \<open>None\<close> says that \<open>fuel\<close> of them were not enough, and a call that is \<open>None\<close> for
  every \<open>fuel\<close> does not return.
\<close>

definition unmark :: "string \<Rightarrow> string" where
  "unmark result = ReplaceAll (ReplaceAll result ''<<<$vars.'' ''$vars.'') ''>>>'' []"

text \<open>\<open>gather m\<close>: the block of the results, when every entry has one.\<close>

definition gather :: "(string, Value option) fmap \<Rightarrow> (string, Value) fmap option" where
  "gather m = (if fmpred (\<lambda>k r. r \<noteq> None) m then Some (fmmap the m) else None)"

text \<open>
  \<open>refAt result start\<close> is the local \<open>fullRef\<close>: the marker at \<open>start\<close> and the run of
  letters, digits, underscores and dots behind it.
\<close>

definition refAt :: "string \<Rightarrow> nat \<Rightarrow> string" where
  "refAt result start =
     take (6 + length (takeWhile (\<lambda>c. isVarChar c \<or> c = CHR ''.'') (drop (start + 6) result)))
       (drop start result)"

function (sequential) resolveValue :: "nat \<Rightarrow> (string, Value) fmap \<Rightarrow> Value \<Rightarrow> Value option"
  and resolveString :: "nat \<Rightarrow> (string, Value) fmap \<Rightarrow> string \<Rightarrow> Value option"
where
  "resolveValue 0 vs v = None"
| "resolveValue (Suc fuel) vs (VStr v) =
     (if Contains v ''$vars.'' then resolveString fuel vs v else Some (VStr v))"
| "resolveValue (Suc fuel) vs (VBlock m) =
     map_option VBlock (gather (fmmap (resolveValue fuel vs) m))"
| "resolveValue (Suc fuel) vs (VList l) =
     map_option VList (those (map (resolveValue fuel vs) l))"
| "resolveValue (Suc fuel) vs v = Some v"
| "resolveString 0 vs result = None"
| "resolveString (Suc fuel) vs result =
     (case Index result ''$vars.'' of
        None \<Rightarrow> Some (VStr (unmark result))
      | Some start \<Rightarrow>
          (case fmlookup vs (TrimPrefix (refAt result start) ''$vars.'') of
             Some resolved \<Rightarrow>
               if result = refAt result start then resolveValue fuel vs resolved
               else if Replace1 result (refAt result start) (Sprint resolved) = result
                 then Some (VStr (unmark result))
               else resolveString fuel vs (Replace1 result (refAt result start) (Sprint resolved))
           | None \<Rightarrow>
               if Replace1 result (refAt result start) (''<<<'' @ refAt result start @ ''>>>'') = result
                 then Some (VStr (unmark result))
               else resolveString fuel vs
                      (Replace1 result (refAt result start) (''<<<'' @ refAt result start @ ''>>>''))))"
  by pat_completeness auto
termination
  by (relation "measure (\<lambda>x. case x of Inl (fuel, vs, v) \<Rightarrow> fuel | Inr (fuel, vs, r) \<Rightarrow> fuel)")
     auto

text \<open>
  One round of the loop of \<open>resolveVariablesIteratively\<close> resolves every variable against
  the map as it was when the round began, and replaces the map by the results.
\<close>

definition maxIterations :: nat where
  "maxIterations = 100"

definition resolveRound ::
  "nat \<Rightarrow> (string, Value) fmap \<Rightarrow> ((string, Value) fmap \<times> bool) option" where
  "resolveRound fuel vs =
     (case gather (fmmap (resolveValue fuel vs) vs) of
        None \<Rightarrow> None
      | Some newVars \<Rightarrow>
          Some (newVars,
                list_ex (\<lambda>path. case (fmlookup vs path, fmlookup newVars path) of
                                   (Some v, Some resolved) \<Rightarrow> \<not> valuesEqual v resolved
                                 | _ \<Rightarrow> False)
                        (keysOf vs)))"

text \<open>
  The loop returns how it ended (\<open>Ok\<close> for the \<open>break\<close>, the error of the last round, or
  \<open>None\<close>) and the map \<open>e.vars\<close> as it leaves it.
\<close>

function resolveVariables_loop ::
  "nat \<Rightarrow> nat \<Rightarrow> (string, Value) fmap \<Rightarrow> unit result option \<times> (string, Value) fmap" where
  "resolveVariables_loop fuel iteration vs =
     (if iteration < maxIterations then
        (case resolveRound fuel vs of
           None \<Rightarrow> (None, vs)
         | Some (newVars, hasChanges) \<Rightarrow>
             if \<not> hasChanges then (Some (Ok ()), newVars)
             else if iteration = maxIterations - 1
               then (Some (Err (CircularVars maxIterations)), newVars)
             else resolveVariables_loop fuel (iteration + 1) newVars)
      else (Some (Ok ()), vs))"
  by pat_completeness auto
termination
  by (relation "measure (\<lambda>(fuel, iteration, vs). maxIterations - iteration)") auto

declare resolveVariables_loop.simps [simp del]

definition resolveVariablesIteratively ::
  "nat \<Rightarrow> TemplateEngine \<Rightarrow> Document \<Rightarrow> Document result option \<times> TemplateEngine" where
  "resolveVariablesIteratively fuel e doc =
     (case resolveVariables_loop fuel 0 (vars e) of
        (None, vs) \<Rightarrow> (None, e\<lparr>vars := vs\<rparr>)
      | (Some Panic, vs) \<Rightarrow> (Some Panic, e\<lparr>vars := vs\<rparr>)
      | (Some (Err err), vs) \<Rightarrow> (Some (Err err), e\<lparr>vars := vs\<rparr>)
      | (Some (Ok u), vs) \<Rightarrow>
          (case those (map (\<lambda>node. map_option
                                      (\<lambda>v. \<lparr>Key = Key node, Type = Type node, Value = v\<rparr>)
                                      (resolveValue fuel vs (Value node)))
                           (Nodes doc)) of
             None \<Rightarrow> (None, e\<lparr>vars := vs\<rparr>)
           | Some nodes \<Rightarrow> (Some (Ok \<lparr>Nodes = nodes\<rparr>), e\<lparr>vars := vs\<rparr>)))"

function extractVars ::
  "(string, Value) fmap \<Rightarrow> string \<Rightarrow> (string, Value) fmap \<Rightarrow> (string, Value) fmap" where
  "extractVars block pfx vs =
     foldl (\<lambda>vs k. case fmlookup block k of
                       None \<Rightarrow> vs
                     | Some v \<Rightarrow>
                         (case v of
                            VBlock nestedBlock \<Rightarrow>
                              extractVars nestedBlock
                                (if pfx \<noteq> [] then pfx @ ''.'' @ k else k) vs
                          | _ \<Rightarrow> fmupd (if pfx \<noteq> [] then pfx @ ''.'' @ k else k) v vs))
           vs (keysOf block)"
  by pat_completeness auto
termination
  by (relation "measure (\<lambda>(block, pfx, vs). size (VBlock block))")
     (auto dest: fmlookup_size)

declare extractVars.simps [simp del]

text \<open>
  Patches, on values: where the Go code writes into the block or list it has reached, the
  model returns the block with that entry replaced.
\<close>

text \<open>\<open>strings.SplitN(key, "[", 2)\<close> for a key that holds a \<open>[\<close>.\<close>

definition SplitN2 :: "string \<Rightarrow> char \<Rightarrow> string \<times> string" where
  "SplitN2 key c = (takeWhile (\<lambda>x. x \<noteq> c) key, drop 1 (dropWhile (\<lambda>x. x \<noteq> c) key))"

fun applyPatchToBlock ::
  "(string, Value) fmap \<Rightarrow> string list \<Rightarrow> Value \<Rightarrow> (string, Value) fmap" where
  "applyPatchToBlock block [] v = block"
| "applyPatchToBlock block (key # rest) v =
     (if Contains key ''['' then
        (case SplitN2 key (CHR ''['') of (baseKey, sel) \<Rightarrow>
           (case fmlookup block baseKey of
              Some (VList list) \<Rightarrow>
                if TrimSuffix sel '']'' = ''*'' then
                  fmupd baseKey
                    (VList (map (\<lambda>item. if rest = [] then v
                                         else (case item of
                                                 VBlock itemBlock \<Rightarrow>
                                                   VBlock (applyPatchToBlock itemBlock rest v)
                                               | _ \<Rightarrow> item))
                              list))
                    block
                else block
            | _ \<Rightarrow> block))
      else if rest = [] then fmupd key v block
      else (case fmlookup block key of
              Some (VBlock nestedBlock) \<Rightarrow>
                fmupd key (VBlock (applyPatchToBlock nestedBlock rest v)) block
            | _ \<Rightarrow> block))"

fun applyPatchPath :: "Node list \<Rightarrow> string list \<Rightarrow> Value \<Rightarrow> Node list" where
  "applyPatchPath nodes [] v = nodes"
| "applyPatchPath [] (key # rest) v = []"
| "applyPatchPath (node # nodes) (key # rest) v =
     (if Key node = key then
        (if rest = [] then node\<lparr>Value := v\<rparr> # nodes
         else (case Value node of
                 VBlock block \<Rightarrow> node\<lparr>Value := VBlock (applyPatchToBlock block rest v)\<rparr> # nodes
               | _ \<Rightarrow> node # nodes))
      else node # applyPatchPath nodes (key # rest) v)"

definition applyPatches :: "Document \<Rightarrow> Node list \<Rightarrow> Document" where
  "applyPatches doc patches =
     \<lparr>Nodes = foldl (\<lambda>nodes patch. applyPatchPath nodes (Split (Key patch) (CHR ''.'')) (Value patch))
                    (Nodes doc) patches\<rparr>"

text \<open>One overlay node: merged into the first node of its key, or appended.\<close>

fun applyOverlay_nodes :: "TemplateOptions \<Rightarrow> Node list \<Rightarrow> Node \<Rightarrow> Node list" where
  "applyOverlay_nodes opts [] overlayNode = [\<lparr>Key = Key overlayNode, Type = [], Value = Value overlayNode\<rparr>]"
| "applyOverlay_nodes opts (targetNode # nodes) overlayNode =
     (if Key targetNode = Key overlayNode
      then targetNode\<lparr>Value := mergeValues opts (Value targetNode) (Value overlayNode)\<rparr> # nodes
      else targetNode # applyOverlay_nodes opts nodes overlayNode)"

text \<open>
  The file system, as the engine sees it: \<open>filepath.Abs\<close>, \<open>filepath.Dir\<close> and
  \<open>filepath.Join\<close>, and \<open>os.Open\<close>, which gives the reader of a file or fails. (\<open>Abs\<close> fails
  only when the working directory is unknown; that is left out.)
\<close>

record FileSystem =
  Abs :: "string \<Rightarrow> string"
  DirOf :: "string \<Rightarrow> string"
  JoinPath :: "string \<Rightarrow> string \<Rightarrow> string"
  Open :: "string \<Rightarrow> Reader option"

text \<open>What the first loop of \<open>processDocument\<close> collects.\<close>

record Directives =
  resultNodes :: "Node list"
  baseDoc :: "Document option"
  overlayNodes :: "Node list"
  patchNodes :: "Node list"
  includeFiles :: "string list"
  allDocs :: "Document list"

definition noDirectives :: Directives where
  "noDirectives =
     \<lparr>resultNodes = [], baseDoc = None, overlayNodes = [], patchNodes = [],
      includeFiles = [], allDocs = []\<rparr>"

definition harvestVars :: "Document list \<Rightarrow> (string, Value) fmap \<Rightarrow> (string, Value) fmap" where
  "harvestVars docs vs =
     foldl (\<lambda>vs d. foldl (\<lambda>vs node. if Key node = ''vars'' then
                                          (case Value node of
                                             VBlock block \<Rightarrow> extractVars block [] vs
                                           | _ \<Rightarrow> vs)
                                        else vs)
                          vs (Nodes d))
           vs docs"

text \<open>
  \<open>composeDocument\<close> is \<open>processDocument\<close> from the harvest of the variables on: merge,
  overlays, patches, resolution.
\<close>

definition composeDocument ::
  "nat \<Rightarrow> TemplateEngine \<Rightarrow> Directives \<Rightarrow> Document list \<Rightarrow>
   Document result option \<times> TemplateEngine" where
  "composeDocument fuel e d includeDocs =
     (let result = \<lparr>Nodes = resultNodes d\<rparr>;
          e' = e\<lparr>vars := harvestVars (allDocs d @ includeDocs @ [result]) (vars e)\<rparr>;
          finalDoc0 = (case baseDoc d of Some b \<Rightarrow> b | None \<Rightarrow> \<lparr>Nodes = []\<rparr>);
          finalDoc1 = foldl (mergeDocuments (options e')) finalDoc0 includeDocs;
          finalDoc2 = (if resultNodes d \<noteq> [] then mergeDocuments (options e') finalDoc1 result
                       else finalDoc1);
          finalDoc3 = \<lparr>Nodes = foldl (applyOverlay_nodes (options e')) (Nodes finalDoc2)
                                   (overlayNodes d)\<rparr>;
          finalDoc4 = (if patchNodes d \<noteq> [] then applyPatches finalDoc3 (patchNodes d)
                       else finalDoc3)
      in resolveVariablesIteratively fuel e' finalDoc4)"

text \<open>
  The recursion through base and include files has no bound in the source but the depth
  of the chain of files; \<open>fuel\<close> counts the nested loads down, and is also what
  \<open>resolveValue\<close> gets. The state of the engine is threaded through every call and
  returned with every result, as the deferred statements leave it.
\<close>

text \<open>
  \<open>enter\<close> is \<open>e.visited[absPath] = true\<close>. \<open>leave\<close> is what the deferred statements of
  \<open>loadDocumentRaw\<close> and \<open>ProcessTemplate\<close> do when the call returns, whatever it returns:
  they put \<open>BaseDir\<close> back to what it was at the call and delete \<open>absPath\<close> from
  \<open>visited\<close>.
\<close>

definition enter :: "string \<Rightarrow> TemplateEngine \<Rightarrow> TemplateEngine" where
  "enter absPath e = e\<lparr>visited := insert absPath (visited e)\<rparr>"

definition leave :: "string \<Rightarrow> TemplateEngine \<Rightarrow> TemplateEngine \<Rightarrow> TemplateEngine" where
  "leave absPath e e' =
     e'\<lparr>options := (options e')\<lparr>BaseDir := BaseDir (options e)\<rparr>,
        visited := visited e' - {absPath}\<rparr>"

function loadDocumentRaw ::
    "nat \<Rightarrow> FileSystem \<Rightarrow> TemplateEngine \<Rightarrow> string \<Rightarrow> Document result option \<times> TemplateEngine"
  and processDocument ::
    "nat \<Rightarrow> FileSystem \<Rightarrow> TemplateEngine \<Rightarrow> Document \<Rightarrow> Document result option \<times> TemplateEngine"
  and extractDirectives ::
    "nat \<Rightarrow> FileSystem \<Rightarrow> TemplateEngine \<Rightarrow> Node list \<Rightarrow> Directives \<Rightarrow>
     Directives result option \<times> TemplateEngine"
  and loadIncludes ::
    "nat \<Rightarrow> FileSystem \<Rightarrow> TemplateEngine \<Rightarrow> string list \<Rightarrow> Document list \<Rightarrow>
     Document list result option \<times> TemplateEngine"
where
  "loadDocumentRaw fuel fs e filename =
     (case fuel of
        0 \<Rightarrow> (None, e)
      | Suc fuel' \<Rightarrow>
          (let absPath = Abs fs filename
           in if absPath \<in> visited e then (Some (Err (CircularFile filename)), e)
              else
                (case Open fs absPath of
                   None \<Rightarrow> (Some (Err (OpenFailed absPath)), leave absPath e (enter absPath e))
                 | Some file \<Rightarrow>
                     (case ParseDocument NewParser file of
                        Panic \<Rightarrow> (Some Panic, leave absPath e (enter absPath e))
                      | Err err \<Rightarrow>
                          (Some (Err (ParseFailed err)), leave absPath e (enter absPath e))
                      | Ok (doc, Some err) \<Rightarrow>
                          (Some (Err (ParseFailed err)), leave absPath e (enter absPath e))
                      | Ok (doc, None) \<Rightarrow>
                          (case processDocument fuel' fs
                                  ((enter absPath e)
                                     \<lparr>options := (options e)\<lparr>BaseDir := DirOf fs absPath\<rparr>\<rparr>)
                                  doc of
                             (r, e') \<Rightarrow> (r, leave absPath e e'))))))"
| "processDocument fuel fs e doc =
     (case extractDirectives fuel fs e (Nodes doc) noDirectives of
        (None, e1) \<Rightarrow> (None, e1)
      | (Some Panic, e1) \<Rightarrow> (Some Panic, e1)
      | (Some (Err err), e1) \<Rightarrow> (Some (Err err), e1)
      | (Some (Ok d), e1) \<Rightarrow>
          (case loadIncludes fuel fs e1 (includeFiles d) [] of
             (None, e2) \<Rightarrow> (None, e2)
           | (Some Panic, e2) \<Rightarrow> (Some Panic, e2)
           | (Some (Err err), e2) \<Rightarrow> (Some (Err err), e2)
           | (Some (Ok includeDocs), e2) \<Rightarrow> composeDocument fuel e2 d includeDocs))"
| "extractDirectives fuel fs e [] d = (Some (Ok d), e)"
| "extractDirectives fuel fs e (node # nodes) d =
     (if Type node = ''base'' then
        (case Value node of
           VStr baseFile \<Rightarrow>
             (case loadDocumentRaw fuel fs e (JoinPath fs (BaseDir (options e)) baseFile) of
                (None, e') \<Rightarrow> (None, e')
              | (Some Panic, e') \<Rightarrow> (Some Panic, e')
              | (Some (Err err), e') \<Rightarrow> (Some (Err (LoadBaseFailed baseFile err)), e')
              | (Some (Ok doc), e') \<Rightarrow>
                  extractDirectives fuel fs e' nodes
                    (d\<lparr>baseDoc := Some doc, allDocs := allDocs d @ [doc]\<rparr>))
         | _ \<Rightarrow> extractDirectives fuel fs e nodes d)
      else if Type node = ''overlay'' then
        (case Value node of
           VBlock block \<Rightarrow>
             extractDirectives fuel fs e nodes
               (d\<lparr>overlayNodes := overlayNodes d @
                     [\<lparr>Key = Key node, Type = Type node, Value = VBlock block\<rparr>]\<rparr>)
         | _ \<Rightarrow> extractDirectives fuel fs e nodes d)
      else if Type node = ''include'' then
        (case Value node of
           VList list \<Rightarrow>
             extractDirectives fuel fs e nodes
               (d\<lparr>includeFiles := includeFiles d @
                     concat (map (\<lambda>item. case item of VStr file \<Rightarrow> [file] | _ \<Rightarrow> []) list)\<rparr>)
         | _ \<Rightarrow> extractDirectives fuel fs e nodes d)
      else if Type node = ''patch'' then
        (case Value node of
           VBlock block \<Rightarrow>
             extractDirectives fuel fs e nodes
               (d\<lparr>patchNodes := patchNodes d @
                     concat (map (\<lambda>k. case fmlookup block k of
                                         Some v \<Rightarrow> [\<lparr>Key = k, Type = [], Value = v\<rparr>]
                                       | None \<Rightarrow> [])
                               (keysOf block))\<rparr>)
         | _ \<Rightarrow> extractDirectives fuel fs e nodes d)
      else if Type node = ''merge'' then
        (case Value node of
           VBlock block \<Rightarrow>
             extractDirectives fuel fs
               (e\<lparr>options := (options e)
                     \<lparr>MergeStrategy := (case fmlookup block ''strategy'' of
                                           Some (VStr strategy) \<Rightarrow> strategy
                                         | _ \<Rightarrow> MergeStrategy (options e)),
                      ListStrategy := (case fmlookup block ''list_strategy'' of
                                          Some (VStr listStrategy) \<Rightarrow> listStrategy
                                        | _ \<Rightarrow> ListStrategy (options e))\<rparr>\<rparr>)
               nodes d
         | _ \<Rightarrow> extractDirectives fuel fs e nodes d)
      else extractDirectives fuel fs e nodes (d\<lparr>resultNodes := resultNodes d @ [node]\<rparr>))"
| "loadIncludes fuel fs e [] docs = (Some (Ok docs), e)"
| "loadIncludes fuel fs e (includeFile # files) docs =
     (case loadDocumentRaw fuel fs e (JoinPath fs (BaseDir (options e)) includeFile) of
        (None, e') \<Rightarrow> (None, e')
      | (Some Panic, e') \<Rightarrow> (Some Panic, e')
      | (Some (Err err), e') \<Rightarrow> (Some (Err (IncludeFailed includeFile err)), e')
      | (Some (Ok doc), e') \<Rightarrow> loadIncludes fuel fs e' files (docs @ [doc]))"
  by pat_completeness auto
termination
  by (relation "inv_image (less_than <*lex*> less_than <*lex*> less_than)
       (\<lambda>x. case x of
          Inl (Inl (fuel, fs, e, filename)) \<Rightarrow> (fuel, 0::nat, 0::nat)
        | Inl (Inr (fuel, fs, e, doc)) \<Rightarrow> (fuel, 2, 0)
        | Inr (Inl (fuel, fs, e, nodes, d)) \<Rightarrow> (fuel, 1, length nodes)
        | Inr (Inr (fuel, fs, e, files, docs)) \<Rightarrow> (fuel, 1, length files))")
     auto

declare loadDocumentRaw.simps [simp del] processDocument.simps [simp del]
  extractDirectives.simps [simp del] loadIncludes.simps [simp del]

definition ProcessTemplate ::
  "nat \<Rightarrow> FileSystem \<Rightarrow> TemplateEngine \<Rightarrow> string \<Rightarrow> Document result option \<times> TemplateEngine" where
  "ProcessTemplate fuel fs e filename =
     (let absPath = Abs fs filename
      in if absPath \<in> visited e then (Some (Err (CircularFile filename)), e)
         else
           (case Open fs absPath of
              None \<Rightarrow> (Some (Err (OpenFailed absPath)), leave absPath e (enter absPath e))
            | Some file \<Rightarrow>
                (case ParseDocument NewParser file of
                   Panic \<Rightarrow> (Some Panic, leave absPath e (enter absPath e))
                 | Err err \<Rightarrow> (Some (Err (ParseFailed err)), leave absPath e (enter absPath e))
                 | Ok (doc, Some err) \<Rightarrow>
                     (Some (Err (ParseFailed err)), leave absPath e (enter absPath e))
                 | Ok (doc, None) \<Rightarrow>
                     (case processDocument fuel fs
                             ((enter absPath e)
                                \<lparr>options := (options e)\<lparr>BaseDir := DirOf fs absPath\<rparr>\<rparr>)
                             doc of
                        (r, e') \<Rightarrow> (r, leave absPath e e')))))"

definition ProcessTemplateFromReader ::
  "nat \<Rightarrow> FileSystem \<Rightarrow> TemplateEngine \<Rightarrow> Reader \<Rightarrow> Document result option \<times> TemplateEngine" where
  "ProcessTemplateFromReader fuel fs e r =
     (case ParseDocument NewParser r of
        Panic \<Rightarrow> (Some Panic, e)
      | Err err \<Rightarrow> (Some (Err err), e)
      | Ok (doc, Some err) \<Rightarrow> (Some (Err err), e)
      | Ok (doc, None) \<Rightarrow> processDocument fuel fs e doc)"

subsection \<open>Patches over a store\<close>

text \<open>
  A \<open>Block\<close> is a Go map and a \<open>List\<close> a slice: both are references, and a \<open>Node\<close> copied
  from one document into another still refers to the same map and the same backing array.
  \<open>applyPatchToBlock\<close> writes through these references. To see what it writes, the
  functions of the patch step are modelled a second time, over a store that maps the address
  of a map to its entries and the address of a backing array to its elements; the names
  carry the suffix \<open>_st\<close>. A value is then a string, nil, a \<open>UseDirective\<close>, or a reference.
\<close>

datatype Ref =
    NilRef
  | StrVal string
  | BlockRef nat
  | ListRef nat
  | SliceRef nat
  | MapRef nat
  | UseVal "string list"

record Store =
  maps :: "(nat, (string, Ref) fmap) fmap"
  arrays :: "(nat, Ref list) fmap"

record SNode =
  SKey :: string
  SType :: string
  SValue :: Ref

definition entriesAt :: "Store \<Rightarrow> nat \<Rightarrow> (string, Ref) fmap" where
  "entriesAt st a = (case fmlookup (maps st) a of Some m \<Rightarrow> m | None \<Rightarrow> fmempty)"

definition elementsAt :: "Store \<Rightarrow> nat \<Rightarrow> Ref list" where
  "elementsAt st a = (case fmlookup (arrays st) a of Some xs \<Rightarrow> xs | None \<Rightarrow> [])"

definition setEntry :: "Store \<Rightarrow> nat \<Rightarrow> string \<Rightarrow> Ref \<Rightarrow> Store" where
  "setEntry st a key v = st\<lparr>maps := fmupd a (fmupd key v (entriesAt st a)) (maps st)\<rparr>"

definition setElement :: "Store \<Rightarrow> nat \<Rightarrow> nat \<Rightarrow> Ref \<Rightarrow> Store" where
  "setElement st a i v = st\<lparr>arrays := fmupd a ((elementsAt st a)[i := v]) (arrays st)\<rparr>"

fun applyPatchToBlock_st :: "Store \<Rightarrow> nat \<Rightarrow> string list \<Rightarrow> Ref \<Rightarrow> Store" where
  "applyPatchToBlock_st st block [] v = st"
| "applyPatchToBlock_st st block (key # rest) v =
     (if Contains key ''['' then
        (case SplitN2 key (CHR ''['') of (baseKey, sel) \<Rightarrow>
           (case fmlookup (entriesAt st block) baseKey of
              Some (ListRef list) \<Rightarrow>
                if TrimSuffix sel '']'' = ''*'' then
                  foldl (\<lambda>st i. if rest = [] then setElement st list i v
                                  else (case elementsAt st list ! i of
                                          BlockRef itemBlock \<Rightarrow>
                                            applyPatchToBlock_st st itemBlock rest v
                                        | _ \<Rightarrow> st))
                        st [0..<length (elementsAt st list)]
                else st
            | _ \<Rightarrow> st))
      else if rest = [] then setEntry st block key v
      else (case fmlookup (entriesAt st block) key of
              Some (BlockRef nestedBlock) \<Rightarrow> applyPatchToBlock_st st nestedBlock rest v
            | _ \<Rightarrow> st))"

text \<open>
  \<open>applyPatches\<close> copies the nodes of the document into a new slice before it patches, so
  the nodes are a list that is returned; the maps and arrays they refer to are not copied.
\<close>

fun applyPatchPath_st ::
  "Store \<Rightarrow> SNode list \<Rightarrow> string list \<Rightarrow> Ref \<Rightarrow> Store \<times> SNode list" where
  "applyPatchPath_st st nodes [] v = (st, nodes)"
| "applyPatchPath_st st [] (key # rest) v = (st, [])"
| "applyPatchPath_st st (node # nodes) (key # rest) v =
     (if SKey node = key then
        (if rest = [] then (st, node\<lparr>SValue := v\<rparr> # nodes)
         else (case SValue node of
                 BlockRef block \<Rightarrow> (applyPatchToBlock_st st block rest v, node # nodes)
               | _ \<Rightarrow> (st, node # nodes)))
      else (case applyPatchPath_st st nodes (key # rest) v of
              (st', nodes') \<Rightarrow> (st', node # nodes')))"

definition applyPatches_st :: "Store \<Rightarrow> SNode list \<Rightarrow> SNode list \<Rightarrow> Store \<times> SNode list" where
  "applyPatches_st st doc patches =
     foldl (\<lambda>(st, nodes) patch.
              applyPatchPath_st st nodes (Split (SKey patch) (CHR ''.'')) (SValue patch))
           (st, doc) patches"

text \<open>
  The store after \<open>ParseDocument\<close> has read
  \<^verbatim>\<open>server {\<close>, \<^verbatim>\<open>host localhost\<close>, \<^verbatim>\<open>}\<close>, \<^verbatim>\<open>fix!patch {\<close>, \<^verbatim>\<open>server.host example.com\<close>, \<^verbatim>\<open>}\<close>:
  the block of \<open>server\<close> is the map at address 0 and that of \<open>fix\<close> the map at address 1.
  \<open>processDocument\<close> keeps the node \<open>server\<close> as it is (its value is still the map at 0) in
  the document it patches, and takes the one patch from the block of \<open>fix\<close>.
\<close>

definition parsedStore :: Store where
  "parsedStore =
     \<lparr>maps = fmupd 0 (fmupd ''host'' (StrVal ''localhost'') fmempty)
               (fmupd 1 (fmupd ''server.host'' (StrVal ''example.com'') fmempty) fmempty),
      arrays = fmempty\<rparr>"

definition inputNodes :: "SNode list" where
  "inputNodes =
     [\<lparr>SKey = ''server'', SType = [], SValue = BlockRef 0\<rparr>,
      \<lparr>SKey = ''fix'', SType = ''patch'', SValue = BlockRef 1\<rparr>]"

text \<open>
  Reading a reference back as a value, to a given depth, relates the store to the values of
  the parser: \<open>readNode st node\<close> is the node that \<open>node\<close> stands for in the store \<open>st\<close>.
\<close>

primrec readRef :: "nat \<Rightarrow> Store \<Rightarrow> Ref \<Rightarrow> Value" where
  "readRef 0 st = (\<lambda>r. VNil)"
| "readRef (Suc depth) st =
     (\<lambda>r. case r of
        NilRef \<Rightarrow> VNil
      | StrVal s \<Rightarrow> VStr s
      | BlockRef a \<Rightarrow> VBlock (fmmap (readRef depth st) (entriesAt st a))
      | ListRef a \<Rightarrow> VList (map (readRef depth st) (elementsAt st a))
      | SliceRef a \<Rightarrow> VSlice (map (readRef depth st) (elementsAt st a))
      | MapRef a \<Rightarrow> VMap (fmmap (readRef depth st) (entriesAt st a))
      | UseVal ns \<Rightarrow> VUse ns)"

definition readNode :: "Store \<Rightarrow> SNode \<Rightarrow> Node" where
  "readNode st node = \<lparr>Key = SKey node, Type = SType node, Value = readRef 3 st (SValue node)\<rparr>"

text \<open>\<open>loadsKeepVisited fuel fs\<close>: every load with this fuel leaves \<open>visited\<close> as it found it.\<close>

definition loadsKeepVisited :: "nat \<Rightarrow> FileSystem \<Rightarrow> bool" where
  "loadsKeepVisited fuel fs =
     (\<forall>e filename. visited (snd (loadDocumentRaw fuel fs e filename)) = visited e)"

subsection \<open>Example inputs\<close>

text \<open>
  A file system with the working directory \<open>/w\<close> and the files listed, each given by its
  lines; two files that include each other, with the lists written over several lines and
  then inline; a file \<open>d.up\<close> included on two branches; and the variables \<open>a\<close> and \<open>b\<close>
  that refer to each other.
\<close>

definition exampleFS :: "(string \<times> string list) list \<Rightarrow> FileSystem" where
  "exampleFS files =
     \<lparr>Abs = (\<lambda>p. if HasPrefix p ''/'' then p else ''/w/'' @ p),
      DirOf = (\<lambda>p. rev (drop 1 (dropWhile (\<lambda>c. c \<noteq> CHR ''/'') (rev p)))),
      JoinPath = (\<lambda>d f. d @ ''/'' @ f),
      Open = (\<lambda>p. map_option fromLines (map_of files p))\<rparr>"

definition cycleFiles :: "(string \<times> string list) list" where
  "cycleFiles =
     [(''/w/a.up'', [''deps!include ['', ''b.up'', '']'']),
      (''/w/b.up'', [''deps!include ['', ''a.up'', '']''])]"

definition inlineCycleFiles :: "(string \<times> string list) list" where
  "inlineCycleFiles =
     [(''/w/a.up'', [''deps!include [b.up]'']),
      (''/w/b.up'', [''deps!include [a.up]''])]"

definition diamondFiles :: "(string \<times> string list) list" where
  "diamondFiles =
     [(''/w/a.up'', [''deps!include ['', ''b.up'', ''c.up'', '']'', ''name a'']),
      (''/w/b.up'', [''deps!include ['', ''d.up'', '']'', ''b 1'']),
      (''/w/c.up'', [''deps!include ['', ''d.up'', '']'', ''c 1'']),
      (''/w/d.up'', [''shared yes''])]"

definition cyclicVars :: "(string, Value) fmap" where
  "cyclicVars = fmupd ''a'' (VStr ''$vars.b'') (fmupd ''b'' (VStr ''$vars.a'') fmempty)"

section \<open>Properties of the parser\<close>

subsection \<open>Auxiliary facts about strings\<close>

lemma Index_single_Some:
  "Index v [c] = Some i \<Longrightarrow> take i v = takeWhile (\<lambda>x. x \<noteq> c) v \<and> i < length v \<and> v ! i = c"
proof (induction v arbitrary: i)
  case Nil
  then show ?case by simp
next
  case (Cons x xs)
  show ?case
  proof (cases "x = c")
    case True
    with Cons.prems show ?thesis
      by (simp add: HasPrefix_def)
  next
    case False
    with Cons.prems obtain j where j: "Index xs [c] = Some j" "i = Suc j"
      by (auto simp: HasPrefix_def)
    with Cons.IH [OF j(1)] False show ?thesis
      by simp
  qed
qed

lemma Index_single_None:
  "Index v [c] = None \<Longrightarrow> c \<notin> set v"
  by (induction v) (auto simp: HasPrefix_def split: if_splits)

lemma Index_single_in:
  "c \<in> set v \<Longrightarrow> \<exists>i. Index v [c] = Some i"
  by (induction v) (auto simp: HasPrefix_def)

lemma Split_nonempty [simp]: "Split s c \<noteq> []"
  by (induction s) (auto split: list.splits)

lemma Join_Cons: "ys \<noteq> [] \<Longrightarrow> Join (l # ys) sep = l @ sep @ Join ys sep"
  by (cases ys) simp_all

lemma Join_Split: "Join (Split s c) [c] = s"
proof (induction s)
  case Nil
  show ?case by simp
next
  case (Cons x xs)
  obtain l ls where sp: "Split xs c = l # ls"
    by (cases "Split xs c") simp_all
  show ?case
  proof (cases "x = c")
    case True
    with Cons show ?thesis
      by (simp add: Join_Cons)
  next
    case False
    with Cons sp show ?thesis
      by (cases ls) simp_all
  qed
qed

lemma Split_no_sep: "c \<notin> set s \<Longrightarrow> Split s c = [s]"
  by (induction s) auto

lemma those_map_Some: "those (map (\<lambda>x. Some (f x)) xs) = Some (map f xs)"
  by (induction xs) simp_all

lemma dedentLines_nonneg:
  assumes "0 \<le> n"
  shows "dedentLines s n =
     Some (Join (map (\<lambda>line. if nat n \<le> length line then drop (nat n) line else line)
                  (Split s (CHR 0x0A))) nl)"
proof -
  have "(\<lambda>line. if n \<le> int (length line) then sliceFrom line n else Some line) =
        (\<lambda>line. Some (if nat n \<le> length line then drop (nat n) line else line))"
    using assms by (auto simp: sliceFrom_def fun_eq_iff)
  then show ?thesis
    by (simp add: dedentLines_def those_map_Some)
qed

lemma stripLeading_fixed:
  "\<forall>u\<in>set us. u \<noteq> [] \<longrightarrow> \<not> HasPrefix s u \<Longrightarrow> stripLeading us s = s"
proof -
  assume a: "\<forall>u\<in>set us. u \<noteq> [] \<longrightarrow> \<not> HasPrefix s u"
  have "find (\<lambda>u. u \<noteq> [] \<and> HasPrefix s u) us = None"
    using a by (auto simp: find_None_iff)
  then show ?thesis
    by (simp add: stripLeading.simps [of us s])
qed

lemma stripLeading_result:
  "u \<in> set us \<Longrightarrow> u \<noteq> [] \<Longrightarrow> \<not> HasPrefix (stripLeading us s) u"
proof (induction us s rule: stripLeading.induct)
  case (1 us s)
  show ?case
  proof (cases "find (\<lambda>u. u \<noteq> [] \<and> HasPrefix s u) us")
    case None
    then have "stripLeading us s = s"
      by (simp add: stripLeading.simps [of us s])
    with None "1.prems" show ?thesis
      by (auto simp: find_None_iff)
  next
    case (Some w)
    with "1.IH" [OF Some] "1.prems" show ?thesis
      by (simp add: stripLeading.simps [of us s])
  qed
qed

lemma stripLeading_drop: "\<exists>k. stripLeading us s = drop k s"
proof (induction us s rule: stripLeading.induct)
  case (1 us s)
  show ?case
  proof (cases "find (\<lambda>u. u \<noteq> [] \<and> HasPrefix s u) us")
    case None
    then show ?thesis
      by (auto simp: stripLeading.simps [of us s] intro: exI [of _ 0])
  next
    case (Some w)
    from "1.IH" [OF Some] obtain k where "stripLeading us (drop (length w) s) = drop k (drop (length w) s)"
      by blast
    with Some show ?thesis
      by (auto simp: stripLeading.simps [of us s])
  qed
qed

lemma HasPrefix_take: "HasPrefix (take m t) u \<Longrightarrow> HasPrefix t u"
  unfolding HasPrefix_def
  by (metis append_eq_conv_conj append_take_drop_id append.assoc)

lemma TrimSpace_idem [simp]: "TrimSpace (TrimSpace s) = TrimSpace s"
proof -
  let ?t = "stripLeading spaceRunes s"
  obtain k where k: "stripLeading (map rev spaceRunes) (rev ?t) = drop k (rev ?t)"
    using stripLeading_drop by blast
  have r: "TrimSpace s = take (length ?t - k) ?t"
    by (simp add: TrimSpace_def k rev_drop)
  have "\<forall>u\<in>set spaceRunes. u \<noteq> [] \<longrightarrow> \<not> HasPrefix (TrimSpace s) u"
    unfolding r using stripLeading_result [of _ spaceRunes s] HasPrefix_take by blast
  then have left: "stripLeading spaceRunes (TrimSpace s) = TrimSpace s"
    by (rule stripLeading_fixed)
  have "\<forall>u\<in>set (map rev spaceRunes). u \<noteq> [] \<longrightarrow> \<not> HasPrefix (rev (TrimSpace s)) u"
    using stripLeading_result [of _ "map rev spaceRunes" "rev ?t"]
    by (simp add: TrimSpace_def)
  then have "stripLeading (map rev spaceRunes) (rev (TrimSpace s)) = rev (TrimSpace s)"
    by (rule stripLeading_fixed)
  with left show ?thesis
    by (simp add: TrimSpace_def [of "TrimSpace s"])
qed

subsection \<open>Trailing comments of line-oriented lines\<close>

text \<open>
  Claim C6, as the code has it. In a line-oriented line (the key token ends with a colon and
  holds no \<open>://\<close>) the raw value is cut at its first \<open>#\<close>, inside double quotes or not; what
  is left is trimmed, and then loses one layer of surrounding double quotes.
\<close>

theorem splitKeyValue_line_oriented:
  assumes "HasSuffix (take (keyEndOf (TrimSpace line)) (TrimSpace line)) '':''"
    and "\<not> Contains (take (keyEndOf (TrimSpace line)) (TrimSpace line)) ''://''"
  shows "splitKeyValue line =
     (TrimSuffix (take (keyEndOf (TrimSpace line)) (TrimSpace line)) '':'',
      (if keyEndOf (TrimSpace line) < length (TrimSpace line) then
         (let v = TrimSpace (drop (keyEndOf (TrimSpace line)) (TrimSpace line))
          in stripSurroundingQuotes
               (if CHR ''#'' \<in> set v then TrimSpace (takeWhile (\<lambda>c. c \<noteq> CHR ''#'') v) else v))
       else []),
      True)"
proof -
  have "(case Index v ''#'' of Some commentIdx \<Rightarrow> TrimSpace (take commentIdx v) | None \<Rightarrow> v) =
        (if CHR ''#'' \<in> set v then TrimSpace (takeWhile (\<lambda>c. c \<noteq> CHR ''#'') v) else v)" for v
  proof (cases "Index v ''#''")
    case None
    then show ?thesis
      by (simp add: Index_single_None)
  next
    case (Some i)
    from Index_single_Some [OF this] have "CHR ''#'' \<in> set v"
      by (metis nth_mem)
    with Some Index_single_Some [OF Some] show ?thesis
      by simp
  qed
  with assms show ?thesis
    by (simp add: splitKeyValue_def Let_def)
qed

theorem splitKeyValue_line_oriented_witness:
  "splitKeyValue (''msg: Hello  # note'') = (''msg'', ''Hello'', True)"
proof -
  have h1: "HasSuffix (take (keyEndOf (TrimSpace ''msg: Hello  # note'')) (TrimSpace ''msg: Hello  # note'')) '':''"
    by code_simp
  have h2: "\<not> Contains (take (keyEndOf (TrimSpace ''msg: Hello  # note'')) (TrimSpace ''msg: Hello  # note'')) ''://''"
    by code_simp
  have "(TrimSuffix (take (keyEndOf (TrimSpace ''msg: Hello  # note'')) (TrimSpace ''msg: Hello  # note'')) '':'',
      (if keyEndOf (TrimSpace ''msg: Hello  # note'') < length (TrimSpace ''msg: Hello  # note'') then
         (let v = TrimSpace (drop (keyEndOf (TrimSpace ''msg: Hello  # note'')) (TrimSpace ''msg: Hello  # note''))
          in stripSurroundingQuotes
               (if CHR ''#'' \<in> set v then TrimSpace (takeWhile (\<lambda>c. c \<noteq> CHR ''#'') v) else v))
       else []),
      True) = (''msg'', ''Hello'', True)"
    by code_simp
  with splitKeyValue_line_oriented [OF h1 h2] show ?thesis
    by (rule trans)
qed

text \<open>
  A \<open>#\<close> between double quotes is not kept: of the value \<open>"a # b"\<close> only \<open>"a\<close> is left, and
  its opening quote stays, since the closing one has gone with the comment.
\<close>

theorem quoted_hash_counterexample:
  "splitKeyValue (''title: '' @ dq @ ''a # b'' @ dq) = (''title'', dq @ ''a'', True)"
  by code_simp

subsection \<open>Dedenting\<close>

text \<open>
  A negative count makes \<open>dedentLines\<close> panic on every text: a text has at least one line,
  every line is at least as long as a negative number, and \<open>line[n:]\<close> is out of range.
\<close>

lemma dedentLines_negative:
  assumes "n < 0"
  shows "dedentLines s n = None"
proof -
  obtain l ls where sp: "Split s (CHR 0x0A) = l # ls"
    using Split_nonempty [of s "CHR 0x0A"] by (cases "Split s (CHR 0x0A)") auto
  show ?thesis
    using assms by (simp add: dedentLines_def sp sliceFrom_def)
qed

text \<open>
  The count is a number of bytes: of a line that starts with a character of two bytes in UTF-8, here the bytes
  C3 A9, a count of 1 removes the byte C3 alone.
\<close>

lemma dedentLines_counts_bytes:
  "dedentLines [CHR 0xC3, CHR 0xA9, CHR ''a''] 1 = Some [CHR 0xA9, CHR ''a'']"
  by code_simp

text \<open>
  Claim C8, as the code has it. For a count \<open>n \<ge> 0\<close>, \<open>dedentLines text n\<close> returns (it does
  not panic) the text whose lines of at least \<open>n\<close> bytes have lost their first \<open>n\<close> bytes and
  whose shorter lines are unchanged; and applying it twice is the same as applying it once,
  for every text, exactly when \<open>n = 0\<close>.
\<close>

theorem dedentLines_removes_n_and_idempotent_iff:
  assumes "0 \<le> n"
  shows "dedentLines text n =
           Some (Join (map (\<lambda>line. if nat n \<le> length line then drop (nat n) line else line)
                        (Split text (CHR 0x0A))) nl) \<and>
         ((\<forall>t. Option.bind (dedentLines t n) (\<lambda>t'. dedentLines t' n) = dedentLines t n)
            \<longleftrightarrow> n = 0)"
proof (intro conjI iffI)
  show "dedentLines text n =
           Some (Join (map (\<lambda>line. if nat n \<le> length line then drop (nat n) line else line)
                        (Split text (CHR 0x0A))) nl)"
    using assms by (rule dedentLines_nonneg)
next
  assume "n = 0"
  then have "dedentLines t n = Some t" for t
    by (simp add: dedentLines_nonneg nl_def Join_Split)
  then show "\<forall>t. Option.bind (dedentLines t n) (\<lambda>t'. dedentLines t' n) = dedentLines t n"
    by simp
next
  assume idem: "\<forall>t. Option.bind (dedentLines t n) (\<lambda>t'. dedentLines t' n) = dedentLines t n"
  show "n = 0"
  proof (rule ccontr)
    assume "n \<noteq> 0"
    with assms have pos: "0 < nat n" by simp
    let ?a = "replicate (nat n) (CHR ''a'')"
    have one: "dedentLines (?a @ ?a) n = Some ?a"
      using assms by (simp add: dedentLines_nonneg Split_no_sep)
    have two: "dedentLines ?a n = Some []"
      using assms by (simp add: dedentLines_nonneg Split_no_sep)
    from idem have "Option.bind (dedentLines (?a @ ?a) n) (\<lambda>t'. dedentLines t' n) = dedentLines (?a @ ?a) n"
      by blast
    with one two have "?a = []" by simp
    with pos show False by simp
  qed
qed

theorem dedentLines_witness:
  "dedentLines (''  ab'' @ nl @ ''c'') 2 = Some (''ab'' @ nl @ ''c'') \<and>
   \<not> (\<forall>t. Option.bind (dedentLines t 2) (\<lambda>t'. dedentLines t' 2) = dedentLines t 2)"
proof -
  have h: "(0::int) \<le> 2" by simp
  have e: "Some (Join (map (\<lambda>line. if nat 2 \<le> length line then drop (nat 2) line else line)
                        (Split (''  ab'' @ nl @ ''c'') (CHR 0x0A))) nl) = Some (''ab'' @ nl @ ''c'')"
    by code_simp
  from dedentLines_removes_n_and_idempotent_iff [OF h, of "''  ab'' @ nl @ ''c''"] e
  show ?thesis by simp
qed

text \<open>
  The count -1, which \<open>parseMultiline\<close> passes on for the annotation \<open>!-1\<close>: the call does not
  return a text, it panics.
\<close>

theorem dedentLines_negative_panics: "dedentLines ''abc'' (- 1) = None"
  by code_simp


subsection \<open>Line-oriented lines and URLs\<close>

lemma TrimSuffix_colon:
  "HasSuffix k '':'' \<Longrightarrow> TrimSuffix k '':'' = butlast k \<and> butlast k @ '':'' = k"
  apply (simp add: TrimSuffix_def HasSuffix_def butlast_conv_take)
  by (metis One_nat_def append_take_drop_id)

text \<open>
  Claim C7. Let the key token be the trimmed line up to its first blank or tab, and the rest
  what follows it, trimmed. \<open>splitKeyValue\<close> reports line-oriented mode exactly when the key
  token ends with a colon and holds no \<open>://\<close>. In that mode the key is the token without its
  final colon and the value is the rest cut at its first \<open>#\<close>, trimmed and without its
  surrounding quotes; otherwise the key is the whole token, a final colon included, and the
  value is the rest without its surrounding quotes, a \<open>#\<close> kept. The line
  \<open>website https://example.com\<close> is not line-oriented and parses to one node with key
  \<open>website\<close> and the scalar \<open>https://example.com\<close>; \<open>name: John Doe\<close> parses to one node with
  key \<open>name\<close> and the scalar \<open>John Doe\<close>; \<open>http://x: a # b\<close>, whose key token ends with a
  colon and holds \<open>://\<close>, parses to one node with key \<open>http://x:\<close> and the scalar \<open>a # b\<close>,
  where \<open>x: a # b\<close> parses to the key \<open>x\<close> and the scalar \<open>a\<close>.
\<close>

theorem line_oriented_iff_and_examples:
  "(let l = TrimSpace line;
        keyPart = take (keyEndOf l) l;
        rest = TrimSpace (drop (keyEndOf l) l)
    in (snd (snd (splitKeyValue line)) \<longleftrightarrow>
          HasSuffix keyPart '':'' \<and> \<not> Contains keyPart ''://'') \<and>
       (HasSuffix keyPart '':'' \<and> \<not> Contains keyPart ''://'' \<longrightarrow>
          fst (splitKeyValue line) @ '':'' = keyPart \<and>
          fst (snd (splitKeyValue line)) =
            stripSurroundingQuotes
              (case Index rest ''#'' of Some i \<Rightarrow> TrimSpace (take i rest) | None \<Rightarrow> rest)) \<and>
       (\<not> (HasSuffix keyPart '':'' \<and> \<not> Contains keyPart ''://'') \<longrightarrow>
          fst (splitKeyValue line) = keyPart \<and>
          fst (snd (splitKeyValue line)) = stripSurroundingQuotes rest)) \<and>
   ParseDocument NewParser (fromLines [''website https://example.com'']) =
     Ok (\<lparr>Nodes = [\<lparr>Key = ''website'', Type = [], Value = VStr ''https://example.com''\<rparr>]\<rparr>,
         None) \<and>
   splitKeyValue ''website https://example.com'' = (''website'', ''https://example.com'', False) \<and>
   ParseDocument NewParser (fromLines [''name: John Doe'']) =
     Ok (\<lparr>Nodes = [\<lparr>Key = ''name'', Type = [], Value = VStr ''John Doe''\<rparr>]\<rparr>, None) \<and>
   splitKeyValue ''name: John Doe'' = (''name'', ''John Doe'', True) \<and>
   ParseDocument NewParser (fromLines [''http://x: a # b'']) =
     Ok (\<lparr>Nodes = [\<lparr>Key = ''http://x:'', Type = [], Value = VStr ''a # b''\<rparr>]\<rparr>, None) \<and>
   splitKeyValue ''http://x: a # b'' = (''http://x:'', ''a # b'', False) \<and>
   ParseDocument NewParser (fromLines [''x: a # b'']) =
     Ok (\<lparr>Nodes = [\<lparr>Key = ''x'', Type = [], Value = VStr ''a''\<rparr>]\<rparr>, None)"
proof (intro conjI)
  have empty: "TrimSpace [] = []"
    by code_simp
  have noidx: "Index [] ''#'' = None"
    by simp
  show "let l = TrimSpace line;
        keyPart = take (keyEndOf l) l;
        rest = TrimSpace (drop (keyEndOf l) l)
    in (snd (snd (splitKeyValue line)) \<longleftrightarrow>
          HasSuffix keyPart '':'' \<and> \<not> Contains keyPart ''://'') \<and>
       (HasSuffix keyPart '':'' \<and> \<not> Contains keyPart ''://'' \<longrightarrow>
          fst (splitKeyValue line) @ '':'' = keyPart \<and>
          fst (snd (splitKeyValue line)) =
            stripSurroundingQuotes
              (case Index rest ''#'' of Some i \<Rightarrow> TrimSpace (take i rest) | None \<Rightarrow> rest)) \<and>
       (\<not> (HasSuffix keyPart '':'' \<and> \<not> Contains keyPart ''://'') \<longrightarrow>
          fst (splitKeyValue line) = keyPart \<and>
          fst (snd (splitKeyValue line)) = stripSurroundingQuotes rest)"
  proof (cases "keyEndOf (TrimSpace line) < length (TrimSpace line)")
    case True
    then show ?thesis
      using TrimSuffix_colon [of "take (keyEndOf (TrimSpace line)) (TrimSpace line)"]
      by (simp add: splitKeyValue_def Let_def)
  next
    case False
    then have "drop (keyEndOf (TrimSpace line)) (TrimSpace line) = []"
      by simp
    with False show ?thesis
      using TrimSuffix_colon [of "take (keyEndOf (TrimSpace line)) (TrimSpace line)"]
      by (simp add: splitKeyValue_def Let_def empty stripSurroundingQuotes_def)
  qed
qed code_simp+

theorem line_oriented_witness:
  "splitKeyValue ''port: 8080 # http'' = (''port'', ''8080'', True) \<and>
   splitKeyValue ''ftp://h: 21 # c'' = (''ftp://h:'', ''21 # c'', False)"
proof -
  have a: "HasSuffix (take (keyEndOf (TrimSpace ''port: 8080 # http'')) (TrimSpace ''port: 8080 # http'')) '':'' \<and>
     \<not> Contains (take (keyEndOf (TrimSpace ''port: 8080 # http'')) (TrimSpace ''port: 8080 # http'')) ''://''"
    by code_simp
  have a1: "take (keyEndOf (TrimSpace ''port: 8080 # http'')) (TrimSpace ''port: 8080 # http'') = ''port:''"
    by code_simp
  have a2: "stripSurroundingQuotes
       (case Index (TrimSpace (drop (keyEndOf (TrimSpace ''port: 8080 # http'')) (TrimSpace ''port: 8080 # http''))) ''#'' of
          Some i \<Rightarrow> TrimSpace (take i (TrimSpace (drop (keyEndOf (TrimSpace ''port: 8080 # http'')) (TrimSpace ''port: 8080 # http''))))
        | None \<Rightarrow> TrimSpace (drop (keyEndOf (TrimSpace ''port: 8080 # http'')) (TrimSpace ''port: 8080 # http''))) = ''8080''"
    by code_simp
  have b: "\<not> (HasSuffix (take (keyEndOf (TrimSpace ''ftp://h: 21 # c'')) (TrimSpace ''ftp://h: 21 # c'')) '':'' \<and>
     \<not> Contains (take (keyEndOf (TrimSpace ''ftp://h: 21 # c'')) (TrimSpace ''ftp://h: 21 # c'')) ''://'')"
    by code_simp
  have b1: "take (keyEndOf (TrimSpace ''ftp://h: 21 # c'')) (TrimSpace ''ftp://h: 21 # c'') = ''ftp://h:''"
    by code_simp
  have b2: "stripSurroundingQuotes (TrimSpace (drop (keyEndOf (TrimSpace ''ftp://h: 21 # c'')) (TrimSpace ''ftp://h: 21 # c''))) = ''21 # c''"
    by code_simp
  have p: "splitKeyValue ''port: 8080 # http'' = (''port'', ''8080'', True)"
    using line_oriented_iff_and_examples [of "''port: 8080 # http''"] a
    unfolding Let_def a1 a2
    by (cases "splitKeyValue ''port: 8080 # http''") auto
  have q: "splitKeyValue ''ftp://h: 21 # c'' = (''ftp://h:'', ''21 # c'', False)"
    using line_oriented_iff_and_examples [of "''ftp://h: 21 # c''"] b
    unfolding Let_def b1 b2
    by (cases "splitKeyValue ''ftp://h: 21 # c''") auto
  from p q show ?thesis
    by simp
qed

subsection \<open>The \<open>!use\<close> directive\<close>

text \<open>
  Claim C9, as the code has it. A top-level line that starts with \<open>!use\<close> is parsed from
  that line alone. When what follows \<open>!use\<close>, trimmed, starts with \<open>[\<close>, the node has key
  \<open>_use\<close>, type \<open>directive\<close> and a \<open>UseDirective\<close> whose namespaces are the trimmed
  comma-separated items between the brackets, in order, and the parse goes on with the next
  line; otherwise the parse fails with an error that carries the number of the line.
\<close>

lemma use_line_not_skipped:
  assumes "HasPrefix (TrimSpace line) ''!use''"
  shows "\<not> skipEmptyLine NewParser line" and "\<not> skipComment NewParser line"
proof -
  from assms obtain t where "TrimSpace line = CHR ''!'' # t"
    by (cases "TrimSpace line") (auto simp: HasPrefix_def)
  then show "\<not> skipEmptyLine NewParser line" and "\<not> skipComment NewParser line"
    by (simp_all add: NewParser_def HasPrefix_def)
qed

theorem use_directive_reads_its_own_line:
  assumes "pending s = line # rest"
    and "HasPrefix (TrimSpace line) ''!use''"
  shows "parseNodes_loop NewParser s nodes =
     (let r = TrimSpace (TrimPrefix (TrimSpace line) ''!use'');
          inner = TrimSuffix (TrimPrefix r ''['') '']''
      in if HasPrefix r ''[''
         then parseNodes_loop NewParser (s\<lparr>pending := rest, lineNum := lineNum s + 1\<rparr>)
                (nodes @ [\<lparr>Key = ''_use'', Type = ''directive'',
                           Value = VUse (if inner = [] then []
                                         else map TrimSpace (Split inner (CHR '','')))\<rparr>])
         else Err (AtLine (lineNum s + 1) UseRequiresList))"
proof -
  have nx: "NextLine s = ((lineNum s + 1, line, True), s\<lparr>pending := rest, lineNum := lineNum s + 1\<rparr>)"
    using assms(1) by (simp add: NextLine_def)
  show ?thesis
    using use_line_not_skipped [OF assms(2)] assms(2)
    by (simp add: parseNodes_loop.simps [of NewParser s] nx parseUseDirective_def
          parseInlineList_def Let_def comp_def)
qed

theorem use_directive_witness:
  "parseNodes_loop NewParser (NewScanner (fromLines [''!use [time, id]''])) [] =
     Ok ([\<lparr>Key = ''_use'', Type = ''directive'', Value = VUse [''time'', ''id'']\<rparr>],
         \<lparr>pending = [], lineNum = 1, readErr = None\<rparr>) \<and>
   parseNodes_loop NewParser (NewScanner (fromLines [''!use time''])) [] =
     Err (AtLine 1 UseRequiresList)"
proof -
  have p1: "pending (NewScanner (fromLines [''!use [time, id]''])) = ''!use [time, id]'' # []"
    by code_simp
  have h1: "HasPrefix (TrimSpace ''!use [time, id]'') ''!use''"
    by code_simp
  have p2: "pending (NewScanner (fromLines [''!use time''])) = ''!use time'' # []"
    by code_simp
  have h2: "HasPrefix (TrimSpace ''!use time'') ''!use''"
    by code_simp
  have e1: "(let r = TrimSpace (TrimPrefix (TrimSpace ''!use [time, id]'') ''!use'');
          inner = TrimSuffix (TrimPrefix r ''['') '']''
      in if HasPrefix r ''[''
         then parseNodes_loop NewParser
                ((NewScanner (fromLines [''!use [time, id]'']))\<lparr>pending := [],
                   lineNum := lineNum (NewScanner (fromLines [''!use [time, id]''])) + 1\<rparr>)
                ([] @ [\<lparr>Key = ''_use'', Type = ''directive'',
                           Value = VUse (if inner = [] then []
                                         else map TrimSpace (Split inner (CHR '','')))\<rparr>])
         else Err (AtLine (lineNum (NewScanner (fromLines [''!use [time, id]''])) + 1) UseRequiresList)) =
     Ok ([\<lparr>Key = ''_use'', Type = ''directive'', Value = VUse [''time'', ''id'']\<rparr>],
         \<lparr>pending = [], lineNum = 1, readErr = None\<rparr>)"
    by code_simp
  have e2: "(let r = TrimSpace (TrimPrefix (TrimSpace ''!use time'') ''!use'');
          inner = TrimSuffix (TrimPrefix r ''['') '']''
      in if HasPrefix r ''[''
         then parseNodes_loop NewParser
                ((NewScanner (fromLines [''!use time'']))\<lparr>pending := [],
                   lineNum := lineNum (NewScanner (fromLines [''!use time''])) + 1\<rparr>)
                ([] @ [\<lparr>Key = ''_use'', Type = ''directive'',
                           Value = VUse (if inner = [] then []
                                         else map TrimSpace (Split inner (CHR '','')))\<rparr>])
         else Err (AtLine (lineNum (NewScanner (fromLines [''!use time''])) + 1) UseRequiresList)) =
     Err (AtLine 1 UseRequiresList)"
    by code_simp
  from use_directive_reads_its_own_line [OF p1 h1, of "[]"] e1
       use_directive_reads_its_own_line [OF p2 h2, of "[]"] e2
  show ?thesis by simp
qed

text \<open>
  A list opened on the \<open>!use\<close> line and continued on the next lines is not read: the
  directive gets no namespace, and the lines of the list become nodes of their own.
\<close>

theorem multiline_use_counterexample:
  "ParseDocument NewParser (fromLines [''!use ['', ''time'', '']'']) =
     Ok (\<lparr>Nodes = [\<lparr>Key = ''_use'', Type = ''directive'', Value = VUse []\<rparr>,
                    \<lparr>Key = ''time'', Type = [], Value = VStr []\<rparr>,
                    \<lparr>Key = '']'', Type = [], Value = VStr []\<rparr>]\<rparr>, None)"
  by code_simp

subsection \<open>Constructs that the input ends before closing\<close>

lemma noErr_simps [simp]: "noErr (Ok x)" "noErr Panic" "\<not> noErr (Err e)"
  by (simp_all add: noErr_def)

lemma noErr_not_Err: "noErr r \<Longrightarrow> r \<noteq> Err e"
  by (cases r) simp_all

lemma parseMultiline_noErr: "noErr (parseMultiline p s node line)"
  by (simp add: parseMultiline_def Let_def split: prod.splits option.splits)

lemma parseBlockOfLists_loop_noErr: "noErr (parseBlockOfLists_loop p s rows)"
proof (induction "length (pending s)" arbitrary: s rows rule: less_induct)
  case less
  show ?case
  proof (cases s rule: NextLine_cases)
    case (eof n)
    then show ?thesis
      by (simp add: parseBlockOfLists_loop.simps [of p s])
  next
    case (line l s1)
    with less [OF line(2)] show ?thesis
      by (simp add: parseBlockOfLists_loop.simps [of p s] Let_def parseInlineList_def)
  qed
qed

lemma parseTable_loop_noErr: "noErr (parseTable_loop p s table)"
proof (induction "length (pending s)" arbitrary: s table rule: less_induct)
  case less
  show ?case
  proof (cases s rule: NextLine_cases)
    case (eof n)
    then show ?thesis
      by (simp add: parseTable_loop.simps [of p s])
  next
    case (line l s1)
    have IH: "noErr (parseTable_loop p s2 t)" if "advanced s1 s2" for s2 t
      using advanced_le [OF that] line(2) by (intro less) simp
    have "noErr (case parseBlockOfLists p s1 of
        Ok (rowsBlock, s'') \<Rightarrow> parseTable_loop p s'' (fmupd ''rows'' (VSlice rowsBlock) table)
      | Err e \<Rightarrow> Err e | Panic \<Rightarrow> Panic)"
      using parseBlockOfLists_loop_noErr [of p s1 "[]"] parseBlockOfLists_loop_advances [of s1 p "[]"]
      by (cases "parseBlockOfLists_loop p s1 []") (auto simp: parseBlockOfLists_def IH)
    with line(1) IH [OF advanced_refl] show ?thesis
      by (simp add: parseTable_loop.simps [of p s] Let_def parseInlineList_def)
  qed
qed

lemma parseTable_noErr: "noErr (parseTable p s)"
  using parseTable_loop_noErr [of p s fmempty]
  by (auto simp: parseTable_def split: result.splits)

lemma parse_noErr_all:
  "(\<forall>line. noErr (parseLine p s line)) \<and>
   (\<forall>node valPart lo. noErr (parseValue p s node valPart lo)) \<and>
   noErr (parseBlock p s) \<and>
   (\<forall>block. noErr (parseBlock_loop p s block)) \<and>
   noErr (parseList p s) \<and>
   (\<forall>list. noErr (parseList_loop p s list)) \<and>
   (\<forall>line. noErr (parseListItem p s line))"
proof (induction "length (pending s)" arbitrary: s rule: less_induct)
  case less
  have block_loop: "noErr (parseBlock_loop p s block)" for block
  proof (cases s rule: NextLine_cases)
    case (eof n)
    then show ?thesis
      by (simp add: parseBlock_loop_eq [of p s])
  next
    case (line l s1)
    have IH: "noErr (parseBlock_loop p s2 b)" if "advanced s1 s2" for s2 b
      using advanced_le [OF that] line(2) less [of s2] by simp
    have "noErr (case parseLine p s1 ln of
        Ok (node, s'') \<Rightarrow> parseBlock_loop p s'' (fmupd (Key node) (Value node) block)
      | Err e \<Rightarrow> Err e | Panic \<Rightarrow> Panic)" for ln
    proof -
      have "noErr (parseLine p s1 ln)"
        using less [OF line(2)] by blast
      then show ?thesis
        using parseLine_advances [of s1 p ln]
        by (cases "parseLine p s1 ln") (auto simp: IH)
    qed
    with line(1) IH [OF advanced_refl] show ?thesis
      by (simp add: parseBlock_loop_eq [of p s] Let_def)
  qed
  have list_loop: "noErr (parseList_loop p s list)" for list
  proof (cases s rule: NextLine_cases)
    case (eof n)
    then show ?thesis
      by (simp add: parseList_loop_eq [of p s])
  next
    case (line l s1)
    have IH: "noErr (parseList_loop p s2 b)" if "advanced s1 s2" for s2 b
      using advanced_le [OF that] line(2) less [of s2] by simp
    have "noErr (case parseListItem p s1 ln of
        Ok (item, s'') \<Rightarrow> parseList_loop p s'' (list @ [item])
      | Err e \<Rightarrow> Err e | Panic \<Rightarrow> Panic)" for ln
    proof -
      have "noErr (parseListItem p s1 ln)"
        using less [OF line(2)] by blast
      then show ?thesis
        using parseListItem_advances [of s1 p ln]
        by (cases "parseListItem p s1 ln") (auto simp: IH)
    qed
    with line(1) IH [OF advanced_refl] show ?thesis
      by (simp add: parseList_loop_eq [of p s] Let_def)
  qed
  have block: "noErr (parseBlock p s)"
    by (simp add: parseBlock.simps block_loop)
  have list: "noErr (parseList p s)"
    by (simp add: parseList.simps list_loop)
  have "value": "noErr (parseValue p s node valPart lo)" for node valPart lo
    using block list parseMultiline_noErr [of p s node valPart] parseTable_noErr [of p s]
    by (auto simp: parseValue.simps [of p s] parseInlineList_def parseInlineBlock_def Let_def
             split: result.splits)
  have item: "noErr (parseListItem p s line)" for line
    using block
    by (auto simp: parseListItem.simps [of p s] parseInlineList_def Let_def
             split: result.splits)
  have line: "noErr (parseLine p s line)" for line
  proof -
    obtain keyPart valPart lo where sp: "splitKeyValue line = (keyPart, valPart, lo)"
      by (metis prod_cases3)
    obtain key ty where kt: "parseKeyAndType keyPart = (key, ty)"
      by (cases "parseKeyAndType keyPart")
    show ?thesis
      using "value" [of "\<lparr>Key = key, Type = ty, Value = VNil\<rparr>" valPart lo]
      by (cases "parseValue p s \<lparr>Key = key, Type = ty, Value = VNil\<rparr> valPart lo")
         (auto simp: parseLine.simps [of p s] sp kt Let_def)
  qed
  from line "value" block block_loop list list_loop item show ?case
    by blast
qed

lemma advanced_set: "advanced s s' \<Longrightarrow> set (pending s') \<subseteq> set (pending s)"
  by (auto simp: advanced_def dest: in_set_dropD)

lemma parseBlock_loop_to_eof:
  assumes "\<forall>l\<in>set (pending s). TrimSpace l \<noteq> ''}''"
    and "parseBlock_loop p s block = Ok (b, s')"
  shows "pending s' = []"
  using assms
proof (induction "length (pending s)" arbitrary: s block rule: less_induct)
  case less
  show ?case
  proof (cases s rule: NextLine_cases)
    case (eof n)
    with less.prems(2) show ?thesis
      by (simp add: parseBlock_loop_eq [of p s])
  next
    case (line l s1)
    have open': "\<forall>l\<in>set (pending s2). TrimSpace l \<noteq> ''}''" if "advanced s1 s2" for s2
      using advanced_set [OF that] advanced_set [OF line(3)] less.prems(1) by blast
    have IH: "pending s' = []" if "advanced s1 s2" "parseBlock_loop p s2 blk = Ok (b, s')" for s2 blk
      using advanced_le [OF that(1)] line(2) open' [OF that(1)] that(2)
      by (intro less.hyps [of s2 blk]) simp_all
    have l: "l \<in> set (pending s)"
      using line(1) by (cases "pending s") (auto simp: NextLine_def)
    with less.prems(1) have nc: "TrimSpace l \<noteq> ''}''"
      by blast
    show ?thesis
    proof (cases "skipEmptyLine p (TrimSpace l) \<or> skipComment p (TrimSpace l)")
      case True
      with less.prems(2) line(1) nc have "parseBlock_loop p s1 block = Ok (b, s')"
        by (simp add: parseBlock_loop_eq [of p s] Let_def)
      with IH [OF advanced_refl] show ?thesis .
    next
      case False
      with less.prems(2) line(1) nc obtain node s2 where
        pl: "parseLine p s1 (TrimSpace l) = Ok (node, s2)" and
        rest: "parseBlock_loop p s2 (fmupd (Key node) (Value node) block) = Ok (b, s')"
        by (auto simp: parseBlock_loop_eq [of p s] Let_def split: result.splits)
      from pl parseLine_advances [of s1 p "TrimSpace l"] have "advanced s1 s2"
        by simp
      from IH [OF this rest] show ?thesis .
    qed
  qed
qed

lemma parseList_loop_to_eof:
  assumes "\<forall>l\<in>set (pending s). TrimSpace l \<noteq> '']''"
    and "parseList_loop p s list = Ok (b, s')"
  shows "pending s' = []"
  using assms
proof (induction "length (pending s)" arbitrary: s list rule: less_induct)
  case less
  show ?case
  proof (cases s rule: NextLine_cases)
    case (eof n)
    with less.prems(2) show ?thesis
      by (simp add: parseList_loop_eq [of p s])
  next
    case (line l s1)
    have open': "\<forall>l\<in>set (pending s2). TrimSpace l \<noteq> '']''" if "advanced s1 s2" for s2
      using advanced_set [OF that] advanced_set [OF line(3)] less.prems(1) by blast
    have IH: "pending s' = []" if "advanced s1 s2" "parseList_loop p s2 lst = Ok (b, s')" for s2 lst
      using advanced_le [OF that(1)] line(2) open' [OF that(1)] that(2)
      by (intro less.hyps [of s2 lst]) simp_all
    have l: "l \<in> set (pending s)"
      using line(1) by (cases "pending s") (auto simp: NextLine_def)
    with less.prems(1) have nc: "TrimSpace l \<noteq> '']''"
      by blast
    show ?thesis
    proof (cases "skipEmptyLine p (TrimSpace l) \<or> skipComment p (TrimSpace l)")
      case True
      with less.prems(2) line(1) nc have "parseList_loop p s1 list = Ok (b, s')"
        by (simp add: parseList_loop_eq [of p s] Let_def)
      with IH [OF advanced_refl] show ?thesis .
    next
      case False
      with less.prems(2) line(1) nc obtain item s2 where
        pl: "parseListItem p s1 (TrimSpace l) = Ok (item, s2)" and
        rest: "parseList_loop p s2 (list @ [item]) = Ok (b, s')"
        by (auto simp: parseList_loop_eq [of p s] Let_def split: result.splits)
      from pl parseListItem_advances [of s1 p "TrimSpace l"] have "advanced s1 s2"
        by simp
      from IH [OF this rest] show ?thesis .
    qed
  qed
qed

lemma parseMultiline_loop_to_eof:
  assumes "\<forall>l\<in>set (pending s). TrimSpace l \<noteq> ''```''"
  shows "parseMultiline_loop s content =
     (content @ pending s, s\<lparr>pending := [], lineNum := lineNum s + length (pending s)\<rparr>)"
  using assms
proof (induction "pending s" arbitrary: s content)
  case Nil
  then show ?case
    by (simp add: parseMultiline_loop.simps [of s] NextLine_def)
next
  case (Cons l ls)
  let ?s1 = "s\<lparr>pending := ls, lineNum := lineNum s + 1\<rparr>"
  have nx: "NextLine s = ((lineNum s + 1, l, True), ?s1)"
    using Cons.hyps(2) [symmetric] by (simp add: NextLine_def)
  have "parseMultiline_loop ?s1 (content @ [l]) =
     ((content @ [l]) @ pending ?s1, ?s1\<lparr>pending := [], lineNum := lineNum ?s1 + length (pending ?s1)\<rparr>)"
    using Cons.prems Cons.hyps(2) [symmetric] by (intro Cons.hyps(1)) simp_all
  moreover have "TrimSpace l \<noteq> ''```''"
    using Cons.prems Cons.hyps(2) [symmetric] by simp
  ultimately show ?case
    using nx Cons.hyps(2) [symmetric] by (simp add: parseMultiline_loop.simps [of s])
qed





subsection \<open>A negative dedent count\<close>

text \<open>
  Claim C10 at the input \<open>k!-1 ```\<close>: it has no directive line, and \<open>ParseDocument\<close> does
  not return a document for it. \<open>strconv.Atoi\<close> accepts the annotation \<open>-1\<close>, and the slice
  \<open>line[n:]\<close> of \<open>dedentLines\<close> panics on it.
\<close>

theorem negative_dedent_panics:
  "ParseDocument NewParser (fromLines [''k!-1 ```'']) = Panic"
  by code_simp

section \<open>Properties of the template engine\<close>

subsection \<open>Order of nodes and of list items under merging\<close>

lemma fmdom_baseMapOf_aux:
  "fmdom (foldl (\<lambda>m node. fmupd (Key node) node m) m0 nodes) =
   fmdom m0 |\<union>| fset_of_list (map Key nodes)"
  by (induction nodes arbitrary: m0) auto

lemma fmdom_baseMapOf: "fmdom (baseMapOf nodes) = fset_of_list (map Key nodes)"
  by (simp add: baseMapOf_def fmdom_baseMapOf_aux)

lemma mergeDocuments_loop_keys:
  "mergeDocuments_loop opts ov baseMap result = (result', baseMap') \<Longrightarrow>
   map Key result' = map Key result @ map Key ov \<and>
   fmdom baseMap' = fmdom baseMap |-| fset_of_list (map Key ov)"
proof (induction ov arbitrary: baseMap result)
  case Nil
  then show ?case by auto
next
  case (Cons ovn ov)
  show ?case
  proof (cases "fmlookup baseMap (Key ovn)")
    case None
    with Cons.prems have "mergeDocuments_loop opts ov baseMap (result @ [ovn]) = (result', baseMap')"
      by simp
    from Cons.IH [OF this] None show ?thesis
      by (auto simp: fmdom_notI)
  next
    case (Some b)
    with Cons.prems have "mergeDocuments_loop opts ov (fmdrop (Key ovn) baseMap)
        (result @ [\<lparr>Key = Key ovn, Type = Type ovn, Value = mergeValues opts (Value b) (Value ovn)\<rparr>]) =
        (result', baseMap')"
      by simp
    from Cons.IH [OF this] show ?thesis
      by auto
  qed
qed

lemma uniqueList_loop_subseq:
  "\<exists>ys. uniqueList_loop l seen result = result @ ys \<and> subseq ys l"
proof (induction l arbitrary: seen result)
  case Nil
  show ?case by simp
next
  case (Cons item rest)
  have keep: "\<exists>ys. uniqueList_loop rest sn (result @ [item]) = result @ ys \<and> subseq ys (item # rest)" for sn
  proof -
    from Cons [of sn "result @ [item]"] obtain ys where
      "uniqueList_loop rest sn (result @ [item]) = (result @ [item]) @ ys" "subseq ys rest"
      by blast
    then show ?thesis
      by (intro exI [of _ "item # ys"]) simp
  qed
  have drop: "\<exists>ys. uniqueList_loop rest seen result = result @ ys \<and> subseq ys (item # rest)"
  proof -
    from Cons [of seen result] obtain ys where
      "uniqueList_loop rest seen result = result @ ys" "subseq ys rest"
      by blast
    then show ?thesis
      by (intro exI [of _ ys]) (simp add: list_emb_Cons)
  qed
  from keep drop show ?case
    by (cases item) simp_all
qed

lemma uniqueList_subseq: "subseq (uniqueList l) l"
  using uniqueList_loop_subseq [of l "{}" "[]"] by (auto simp: uniqueList_def)



subsection \<open>Variables that refer to each other\<close>

lemma cyclic_step:
  "resolveValue (Suc fuel) cyclicVars (VStr ''$vars.a'') = resolveString fuel cyclicVars ''$vars.a''"
  "resolveValue (Suc fuel) cyclicVars (VStr ''$vars.b'') = resolveString fuel cyclicVars ''$vars.b''"
  "resolveString (Suc fuel) cyclicVars ''$vars.a'' = resolveValue fuel cyclicVars (VStr ''$vars.b'')"
  "resolveString (Suc fuel) cyclicVars ''$vars.b'' = resolveValue fuel cyclicVars (VStr ''$vars.a'')"
proof -
  have c: "Contains ''$vars.a'' ''$vars.''" "Contains ''$vars.b'' ''$vars.''"
    by code_simp+
  have i: "Index ''$vars.a'' ''$vars.'' = Some 0" "Index ''$vars.b'' ''$vars.'' = Some 0"
    by code_simp+
  have r: "refAt ''$vars.a'' 0 = ''$vars.a''" "refAt ''$vars.b'' 0 = ''$vars.b''"
    by code_simp+
  have t: "TrimPrefix ''$vars.a'' ''$vars.'' = ''a''" "TrimPrefix ''$vars.b'' ''$vars.'' = ''b''"
    by code_simp+
  have l: "fmlookup cyclicVars ''a'' = Some (VStr ''$vars.b'')"
    "fmlookup cyclicVars ''b'' = Some (VStr ''$vars.a'')"
    by (simp_all add: cyclicVars_def)
  show "resolveValue (Suc fuel) cyclicVars (VStr ''$vars.a'') = resolveString fuel cyclicVars ''$vars.a''"
    "resolveValue (Suc fuel) cyclicVars (VStr ''$vars.b'') = resolveString fuel cyclicVars ''$vars.b''"
    using c by simp_all
  show "resolveString (Suc fuel) cyclicVars ''$vars.a'' = resolveValue fuel cyclicVars (VStr ''$vars.b'')"
    "resolveString (Suc fuel) cyclicVars ''$vars.b'' = resolveValue fuel cyclicVars (VStr ''$vars.a'')"
    unfolding resolveString.simps i r t l option.case by simp_all
qed

lemma cyclic_never_returns:
  "resolveValue fuel cyclicVars (VStr ''$vars.a'') = None \<and>
   resolveValue fuel cyclicVars (VStr ''$vars.b'') = None \<and>
   resolveString fuel cyclicVars ''$vars.a'' = None \<and>
   resolveString fuel cyclicVars ''$vars.b'' = None"
proof (induction fuel)
  case 0
  show ?case by simp
next
  case (Suc fuel)
  then show ?case
    by (simp only: cyclic_step)
qed

lemma gather_None: "fmlookup m k = Some None \<Longrightarrow> gather m = None"
  by (auto simp: gather_def fmpred_iff)

lemma cyclic_vars_never_resolve:
  assumes "vars e = cyclicVars"
  shows "fst (resolveVariablesIteratively fuel e doc) = None"
proof -
  have "fmlookup (fmmap (resolveValue fuel cyclicVars) cyclicVars) ''a'' = Some None"
    using cyclic_never_returns [of fuel] by (simp add: cyclicVars_def)
  then have "resolveRound fuel cyclicVars = None"
    by (simp add: resolveRound_def gather_None)
  then have "resolveVariables_loop fuel 0 cyclicVars = (None, cyclicVars)"
    by (simp add: resolveVariables_loop.simps [of fuel 0] maxIterations_def)
  with assms show ?thesis
    by (simp add: resolveVariablesIteratively_def)
qed

text \<open>
  Claim C2 at \<open>vars.a = $vars.b\<close>, \<open>vars.b = $vars.a\<close>: no amount of fuel lets
  \<open>resolveValue\<close> return on either variable, so the first round of
  \<open>resolveVariablesIteratively\<close> never ends and no error is reported; the same holds for
  \<open>ProcessTemplateFromReader\<close> on the document that declares the two variables. When a
  string is exactly one reference, \<open>resolveValue\<close> calls itself on the value of the
  variable, and the bound of 100 rounds is never reached.
\<close>

theorem mutual_variables_never_resolve:
  "resolveValue fuel cyclicVars (VStr ''$vars.b'') = None \<and>
   fst (resolveVariablesIteratively fuel (NewTemplateEngine\<lparr>vars := cyclicVars\<rparr>) doc) = None \<and>
   fst (ProcessTemplateFromReader fuel fs NewTemplateEngine
          (fromLines [''vars {'', ''a $vars.b'', ''b $vars.a'', ''}''])) = None"
proof (intro conjI)
  show "resolveValue fuel cyclicVars (VStr ''$vars.b'') = None"
    using cyclic_never_returns [of fuel] by blast
  show "fst (resolveVariablesIteratively fuel (NewTemplateEngine\<lparr>vars := cyclicVars\<rparr>) doc) = None"
    by (rule cyclic_vars_never_resolve) simp
  let ?node = "\<lparr>Key = ''vars'', Type = [], Value = VBlock cyclicVars\<rparr>"
  have parse: "ParseDocument NewParser (fromLines [''vars {'', ''a $vars.b'', ''b $vars.a'', ''}'']) =
      Ok (\<lparr>Nodes = [?node]\<rparr>, None)"
    by code_simp
  have dirs: "extractDirectives fuel fs NewTemplateEngine [?node] noDirectives =
      (Some (Ok (noDirectives\<lparr>resultNodes := [?node]\<rparr>)), NewTemplateEngine)"
    by (simp add: extractDirectives.simps noDirectives_def)
  have harvest: "harvestVars [\<lparr>Nodes = [?node]\<rparr>] fmempty = cyclicVars"
    by code_simp
  have "fst (composeDocument fuel NewTemplateEngine (noDirectives\<lparr>resultNodes := [?node]\<rparr>) []) = None"
    unfolding composeDocument_def Let_def
    by (rule cyclic_vars_never_resolve) (simp add: noDirectives_def NewTemplateEngine_def harvest)
  moreover have "includeFiles (noDirectives\<lparr>resultNodes := [?node]\<rparr>) = []"
    by (simp add: noDirectives_def)
  ultimately have "fst (processDocument fuel fs NewTemplateEngine \<lparr>Nodes = [?node]\<rparr>) = None"
    by (simp add: processDocument.simps dirs loadIncludes.simps)
  then show "fst (ProcessTemplateFromReader fuel fs NewTemplateEngine
          (fromLines [''vars {'', ''a $vars.b'', ''b $vars.a'', ''}''])) = None"
    by (simp add: ProcessTemplateFromReader_def parse)
qed

subsection \<open>Files that include each other\<close>

lemma resolveVariablesIteratively_visited:
  "visited (snd (resolveVariablesIteratively fuel e doc)) = visited e"
  by (simp add: resolveVariablesIteratively_def split: prod.splits option.splits result.splits)

lemma composeDocument_visited:
  "visited (snd (composeDocument fuel e d includeDocs)) = visited e"
  by (simp add: composeDocument_def Let_def resolveVariablesIteratively_visited)

lemma loadsKeepVisitedD:
  "loadsKeepVisited fuel fs \<Longrightarrow> loadDocumentRaw fuel fs e filename = (r, e') \<Longrightarrow>
   visited e' = visited e"
  unfolding loadsKeepVisited_def by (metis snd_conv)

lemma extractDirectives_visited:
  assumes "loadsKeepVisited fuel fs"
  shows "visited (snd (extractDirectives fuel fs e nodes d)) = visited e"
proof (induction nodes arbitrary: e d)
  case Nil
  show ?case
    by (simp add: extractDirectives.simps)
next
  case (Cons node nodes)
  have base: "visited (snd (case loadDocumentRaw fuel fs e path of
        (None, e') \<Rightarrow> (None, e')
      | (Some Panic, e') \<Rightarrow> (Some Panic, e')
      | (Some (Err err), e') \<Rightarrow> (Some (Err (LoadBaseFailed baseFile err)), e')
      | (Some (Ok doc), e') \<Rightarrow>
          extractDirectives fuel fs e' nodes
            (d\<lparr>baseDoc := Some doc, allDocs := allDocs d @ [doc]\<rparr>))) = visited e"
    for path baseFile
  proof -
    obtain r e' where ld: "loadDocumentRaw fuel fs e path = (r, e')"
      by (cases "loadDocumentRaw fuel fs e path")
    from loadsKeepVisitedD [OF assms ld] have "visited e' = visited e" .
    with ld show ?thesis
      by (simp add: Cons.IH split: option.splits result.splits)
  qed
  show ?case
    by (simp add: extractDirectives.simps(2) [of fuel fs e node nodes d] Cons.IH base
             split: Value.splits)
qed

lemma loadIncludes_visited:
  assumes "loadsKeepVisited fuel fs"
  shows "visited (snd (loadIncludes fuel fs e files docs)) = visited e"
proof (induction files arbitrary: e docs)
  case Nil
  show ?case
    by (simp add: loadIncludes.simps)
next
  case (Cons includeFile files)
  obtain r e' where ld:
    "loadDocumentRaw fuel fs e (JoinPath fs (BaseDir (options e)) includeFile) = (r, e')"
    by (cases "loadDocumentRaw fuel fs e (JoinPath fs (BaseDir (options e)) includeFile)")
  from loadsKeepVisitedD [OF assms ld] have "visited e' = visited e" .
  with ld show ?case
    by (simp add: loadIncludes.simps(2) [of fuel fs e includeFile files docs] Cons.IH
             split: option.splits result.splits)
qed

lemma processDocument_visited:
  assumes "loadsKeepVisited fuel fs"
  shows "visited (snd (processDocument fuel fs e doc)) = visited e"
proof -
  obtain r1 e1 where ed: "extractDirectives fuel fs e (Nodes doc) noDirectives = (r1, e1)"
    by (cases "extractDirectives fuel fs e (Nodes doc) noDirectives")
  from extractDirectives_visited [OF assms, of e "Nodes doc" noDirectives] ed
  have v1: "visited e1 = visited e"
    by simp
  have "visited (snd (case loadIncludes fuel fs e1 (includeFiles d') [] of
        (None, e2) \<Rightarrow> (None, e2)
      | (Some Panic, e2) \<Rightarrow> (Some Panic, e2)
      | (Some (Err err), e2) \<Rightarrow> (Some (Err err), e2)
      | (Some (Ok includeDocs), e2) \<Rightarrow> composeDocument fuel e2 d' includeDocs)) = visited e1"
    for d'
  proof -
    obtain r2 e2 where li: "loadIncludes fuel fs e1 (includeFiles d') [] = (r2, e2)"
      by (cases "loadIncludes fuel fs e1 (includeFiles d') []")
    from loadIncludes_visited [OF assms, of e1 "includeFiles d'" "[]"] li
    have "visited e2 = visited e1"
      by simp
    with li show ?thesis
      by (simp add: composeDocument_visited split: option.splits result.splits)
  qed
  with ed v1 show ?thesis
    by (simp add: processDocument.simps [of fuel fs e doc] split: option.splits result.splits)
qed

lemma loadsKeepVisited_all: "loadsKeepVisited fuel fs"
proof (induction fuel)
  case 0
  show ?case
    by (simp add: loadsKeepVisited_def loadDocumentRaw.simps)
next
  case (Suc fuel)
  show ?case
    unfolding loadsKeepVisited_def
  proof (intro allI)
    fix e filename
    have inner: "visited e' = insert (Abs fs filename) (visited e)"
      if "processDocument fuel fs
          (e\<lparr>visited := insert (Abs fs filename) (visited e),
             options := (options e)\<lparr>BaseDir := DirOf fs (Abs fs filename)\<rparr>\<rparr>) doc = (r, e')"
      for doc r e'
      using processDocument_visited [OF Suc, of "e\<lparr>visited := insert (Abs fs filename) (visited e),
             options := (options e)\<lparr>BaseDir := DirOf fs (Abs fs filename)\<rparr>\<rparr>" doc] that
      by simp
    show "visited (snd (loadDocumentRaw (Suc fuel) fs e filename)) = visited e"
    proof (cases "Abs fs filename \<in> visited e")
      case True
      then show ?thesis
        by (simp add: loadDocumentRaw.simps Let_def)
    next
      case False
      then show ?thesis
        by (auto simp: loadDocumentRaw.simps Let_def leave_def enter_def
                 split: option.splits result.splits prod.splits dest!: inner)
    qed
  qed
qed

lemma ProcessTemplate_visited:
  "visited (snd (ProcessTemplate fuel fs e filename)) = visited e"
proof -
  have inner: "visited e' = insert (Abs fs filename) (visited e)"
    if "processDocument fuel fs
        (e\<lparr>visited := insert (Abs fs filename) (visited e),
           options := (options e)\<lparr>BaseDir := DirOf fs (Abs fs filename)\<rparr>\<rparr>) doc = (r, e')"
    for doc r e'
    using processDocument_visited [OF loadsKeepVisited_all, of fuel fs
           "e\<lparr>visited := insert (Abs fs filename) (visited e),
             options := (options e)\<lparr>BaseDir := DirOf fs (Abs fs filename)\<rparr>\<rparr>" doc] that
    by simp
  show ?thesis
  proof (cases "Abs fs filename \<in> visited e")
    case True
    then show ?thesis
      by (simp add: ProcessTemplate_def Let_def)
  next
    case False
    then show ?thesis
      by (auto simp: ProcessTemplate_def Let_def leave_def enter_def
               split: option.splits result.splits prod.splits dest!: inner)
  qed
qed




subsection \<open>Patches write into the document they are given\<close>

text \<open>
  Claim C3 at the document \<open>server { host localhost }\<close>, \<open>fix!patch { server.host
  example.com }\<close>. The nodes \<open>inputNodes\<close> in the store \<open>parsedStore\<close> are the document that
  \<open>ParseDocument\<close> returns for this text, the block of the node \<open>server\<close> being the map at
  address 0, which holds \<open>host = localhost\<close>. \<open>applyPatches\<close>, on the node \<open>server\<close> and the
  patch of \<open>fix\<close>, returns nodes whose \<open>server\<close> still refers to that map, and in the store
  it leaves the map holds \<open>host = example.com\<close>: read after the patch, the input document
  has \<open>host = example.com\<close> in its block \<open>server\<close>, as the result of the template has.
\<close>

theorem patch_writes_into_the_input_block:
  "ParseDocument NewParser
     (fromLines [''server {'', ''host localhost'', ''}'',
                 ''fix!patch {'', ''server.host example.com'', ''}'']) =
     Ok (\<lparr>Nodes = map (readNode parsedStore) inputNodes\<rparr>, None) \<and>
   SValue (hd inputNodes) = BlockRef 0 \<and>
   entriesAt parsedStore 0 = fmupd ''host'' (StrVal ''localhost'') fmempty \<and>
   applyPatches_st parsedStore [hd inputNodes]
       [\<lparr>SKey = ''server.host'', SType = [], SValue = StrVal ''example.com''\<rparr>] =
     (parsedStore\<lparr>maps := fmupd 0 (fmupd ''host'' (StrVal ''example.com'') fmempty) (maps parsedStore)\<rparr>,
      [\<lparr>SKey = ''server'', SType = [], SValue = BlockRef 0\<rparr>]) \<and>
   map (readNode (fst (applyPatches_st parsedStore [hd inputNodes]
       [\<lparr>SKey = ''server.host'', SType = [], SValue = StrVal ''example.com''\<rparr>]))) inputNodes =
     [\<lparr>Key = ''server'', Type = [],
        Value = VBlock (fmupd ''host'' (VStr ''example.com'') fmempty)\<rparr>,
      \<lparr>Key = ''fix'', Type = ''patch'',
        Value = VBlock (fmupd ''server.host'' (VStr ''example.com'') fmempty)\<rparr>] \<and>
   fst (ProcessTemplateFromReader 5 (exampleFS []) NewTemplateEngine
     (fromLines [''server {'', ''host localhost'', ''}'',
                 ''fix!patch {'', ''server.host example.com'', ''}''])) =
     Some (Ok \<lparr>Nodes = [\<lparr>Key = ''server'', Type = [],
                          Value = VBlock (fmupd ''host'' (VStr ''example.com'') fmempty)\<rparr>]\<rparr>)"
  by code_simp

end
